theory Spec2Isabelle
  imports Main "HOL-Library.Word"
begin

unbundle bit_operations_syntax

section \<open>The machine state\<close>

text \<open>
  The emulator is a single Go struct, \<^verbatim>\<open>Chip8\<close>, mutated in place by its methods.
  Here every method takes the struct and returns the updated one.  Go's \<^verbatim>\<open>uint8\<close> and
  \<^verbatim>\<open>uint16\<close> are \<open>8 word\<close> and \<open>16 word\<close>, so that \<open>+\<close>, \<open>-\<close> and \<open>*\<close> wrap as in Go.

  The repository holds two revisions of the interpreter.  The later one (the file with the
  font set, the draw opcode and the timer countdown, used by \<^verbatim>\<open>chip8_test.go\<close> through
  \<^verbatim>\<open>NewChip\<close>) is modelled by \<open>Execute\<close>; the earlier one (\<^verbatim>\<open>main.go\<close>) by
  \<open>Execute_main\<close>.  The decoder, the field extractors and \<^verbatim>\<open>Math8\<close> are the same in both.
\<close>

type_synonym u8 = "8 word"
type_synonym u16 = "16 word"

text \<open>
  \<open>memory\<close> and \<open>gfx\<close> are slices: an index beyond their length panics, which the model
  returns as \<open>IndexOutOfRange\<close>.  \<open>v\<close> and \<open>stack\<close> are arrays of 16 cells, a length the
  Go type fixes; \<open>well_formed\<close> below records it.
\<close>

record Chip8 =
  inst :: u16
  memory :: "u8 list"
  v :: "u8 list"
  index :: u16
  pc :: u16
  gfx :: "u8 list"
  delayTimer :: u8
  soundTimer :: u8
  stack :: "u16 list"
  sp :: u16

datatype error =
    IndexOutOfRange   \<comment> \<open>Go's run-time panic on a slice index out of range\<close>
  | BadArg            \<comment> \<open>\<^verbatim>\<open>panic("bad arg")\<close> of \<^verbatim>\<open>GetImm\<close>\<close>
  | ReadError         \<comment> \<open>\<^verbatim>\<open>panic(err)\<close> of \<^verbatim>\<open>LoadProgram\<close>\<close>
  | Exit              \<comment> \<open>\<^verbatim>\<open>os.Exit(0)\<close> of the earlier revision\<close>

definition well_formed :: "Chip8 \<Rightarrow> bool" where
  "well_formed c \<longleftrightarrow> length (v c) = 16 \<and> length (stack c) = 16"

definition progStart :: nat where "progStart = 0x200"
definition memSize :: nat where "memSize = 4096"
definition FONTSET_SIZE :: nat where "FONTSET_SIZE = 80"
definition FONT_OFFSET :: nat where "FONT_OFFSET = 0x50"

definition fontSet :: "u8 list" where
  "fontSet =
    [0xF0, 0x90, 0x90, 0x90, 0xF0,
     0x20, 0x60, 0x20, 0x20, 0x70,
     0xF0, 0x10, 0xF0, 0x80, 0xF0,
     0xF0, 0x10, 0xF0, 0x10, 0xF0,
     0x90, 0x90, 0xF0, 0x10, 0x10,
     0xF0, 0x80, 0xF0, 0x10, 0xF0,
     0xF0, 0x80, 0xF0, 0x90, 0xF0,
     0xF0, 0x10, 0x20, 0x40, 0x40,
     0xF0, 0x90, 0xF0, 0x90, 0xF0,
     0xF0, 0x90, 0xF0, 0x10, 0xF0,
     0xF0, 0x90, 0xF0, 0x90, 0x90,
     0xE0, 0x90, 0xE0, 0x90, 0xE0,
     0xF0, 0x80, 0x80, 0x80, 0xF0,
     0xE0, 0x90, 0x90, 0x90, 0xE0,
     0xF0, 0x80, 0xF0, 0x80, 0xF0,
     0xF0, 0x80, 0xF0, 0x80, 0x80]"

text \<open>\<^verbatim>\<open>new(Chip8)\<close>: Go's zero value of the struct; both slices are nil.\<close>

definition new_Chip8 :: Chip8 where
  "new_Chip8 =
    \<lparr>inst = 0, memory = [], v = replicate 16 0, index = 0, pc = 0, gfx = [],
     delayTimer = 0, soundTimer = 0, stack = replicate 16 0, sp = 0\<rparr>"

text \<open>
  \<^verbatim>\<open>Init\<close> of the later revision.  The loop over \<^verbatim>\<open>fontSet\<close> writes the 80 glyph bytes
  into the fresh memory from \<^verbatim>\<open>FONT_OFFSET\<close> on.
\<close>

definition Init :: "Chip8 \<Rightarrow> Chip8" where
  "Init c =
    c\<lparr>inst := 0, index := 0, pc := of_nat progStart, sp := 0,
      delayTimer := 0, soundTimer := 0,
      memory := replicate FONT_OFFSET 0 @ fontSet
                  @ replicate (memSize - FONT_OFFSET - FONTSET_SIZE) 0,
      gfx := replicate (64 * 32) 0\<rparr>"

text \<open>
  \<^verbatim>\<open>LoadProgram\<close>, with the content of the file as its argument.  Slicing
  \<^verbatim>\<open>c.memory[progStart:]\<close> panics on a memory shorter than \<^verbatim>\<open>progStart\<close>.  One \<^verbatim>\<open>Read\<close>
  into that buffer copies as many bytes as fit.  \<^verbatim>\<open>Read\<close> into a buffer of length 0 reads
  nothing and reports no error; into any other buffer a file with no byte gives
  \<^verbatim>\<open>io.EOF\<close>, and the method panics.
\<close>

definition LoadProgram :: "Chip8 \<Rightarrow> u8 list \<Rightarrow> error + Chip8" where
  "LoadProgram c prog =
    (if length (memory c) < progStart then Inl IndexOutOfRange
     else if length (memory c) = progStart then Inr c
     else if prog = [] then Inl ReadError
     else let k = min (length prog) (length (memory c) - progStart)
          in Inr (c\<lparr>memory := take progStart (memory c) @ take k prog
                                 @ drop (progStart + k) (memory c)\<rparr>))"

definition NewChip :: "u8 list \<Rightarrow> error + Chip8" where
  "NewChip bin = LoadProgram (Init new_Chip8) bin"

section \<open>The decoder\<close>

text \<open>\<^verbatim>\<open>bits.RotateLeft16\<close> of Go's standard library, for a rotation \<open>k\<close> that is not negative.\<close>

definition RotateLeft16 :: "u16 \<Rightarrow> nat \<Rightarrow> u16" where
  "RotateLeft16 x k = (let s = k mod 16 in push_bit s x OR drop_bit (16 - s) x)"

text \<open>
  \<^verbatim>\<open>Decode\<close> reads \<^verbatim>\<open>memory[pc]\<close> and \<^verbatim>\<open>memory[pc+1]\<close>; \<^verbatim>\<open>pc+1\<close> is a \<^verbatim>\<open>uint16\<close> sum.
\<close>

definition Decode :: "Chip8 \<Rightarrow> error + Chip8" where
  "Decode c =
    (if unat (pc c) < length (memory c) \<and> unat (pc c + 1) < length (memory c)
     then let topByte = RotateLeft16 (ucast (memory c ! unat (pc c))) 8;
              bottomByte = (ucast (memory c ! unat (pc c + 1)) :: u16)
          in Inr (c\<lparr>inst := topByte OR bottomByte\<rparr>)
     else Inl IndexOutOfRange)"

definition topNibble :: "u16 \<Rightarrow> u16" where
  "topNibble i = drop_bit 12 (i AND 0xF000)"

definition bottomNibble :: "u16 \<Rightarrow> u16" where
  "bottomNibble i = i AND 0x000F"

definition bottomByte :: "u16 \<Rightarrow> u16" where
  "bottomByte i = i AND 0x00FF"

definition targetAddr :: "u16 \<Rightarrow> u16" where
  "targetAddr i = i AND 0x0FFF"

definition SetIndex :: "Chip8 \<Rightarrow> Chip8" where
  "SetIndex c = c\<lparr>index := inst c AND 0x0FFF\<rparr>"

definition SetPC :: "Chip8 \<Rightarrow> u16 \<Rightarrow> Chip8" where
  "SetPC c newaddr = c\<lparr>pc := newaddr\<rparr>"

definition IncPC :: "Chip8 \<Rightarrow> Chip8" where
  "IncPC c = c\<lparr>pc := pc c + 2\<rparr>"

text \<open>
  \<^verbatim>\<open>GetImm\<close> of the later revision (the earlier one has no case 1).  The conversion
  \<^verbatim>\<open>uint8(...)\<close> keeps the low eight bits.
\<close>

definition GetImm :: "Chip8 \<Rightarrow> int \<Rightarrow> error + u8" where
  "GetImm c numDigs =
    (if numDigs = 1 then Inr (ucast (inst c AND 0x000F))
     else if numDigs = 2 then Inr (ucast (inst c AND 0x00FF))
     else if numDigs = 3 then Inr (ucast (inst c AND 0x0FFF))
     else Inl BadArg)"

text \<open>In Go \<^verbatim>\<open>&\<close> and \<^verbatim>\<open>>>\<close> have the same precedence and associate to the left.\<close>

definition GetXReg :: "Chip8 \<Rightarrow> u16" where
  "GetXReg c = drop_bit 8 (inst c AND 0x0F00)"

definition GetYReg :: "Chip8 \<Rightarrow> u16" where
  "GetYReg c = drop_bit 4 (inst c AND 0x00F0)"

section \<open>The arithmetic instructions\<close>

text \<open>
  \<^verbatim>\<open>Math8\<close>.  In case 4 the sum \<^verbatim>\<open>add\<close> of two \<^verbatim>\<open>uint8\<close> values is itself a \<^verbatim>\<open>uint8\<close>, and
  the test \<^verbatim>\<open>add > 255\<close> compares it with the \<^verbatim>\<open>uint8\<close> constant 255.  A bottom nibble
  that no case lists leaves the state as it is.
\<close>

definition Math8 :: "Chip8 \<Rightarrow> Chip8" where
  "Math8 c =
    (let x = unat (GetXReg c);
         y = unat (GetYReg c);
         xVal = v c ! x;
         yVal = v c ! y;
         b = bottomNibble (inst c)
     in if b = 0x0 then c\<lparr>v := (v c)[x := yVal]\<rparr>
        else if b = 0x1 then c\<lparr>v := (v c)[x := xVal OR yVal]\<rparr>
        else if b = 0x2 then c\<lparr>v := (v c)[x := xVal AND yVal]\<rparr>
        else if b = 0x3 then c\<lparr>v := (v c)[x := xVal XOR yVal]\<rparr>
        else if b = 0x4 then
          (let add = xVal + yVal;
               c1 = (if (255 :: u8) < add then c\<lparr>v := (v c)[0xF := 1]\<rparr> else c)
           in c1\<lparr>v := (v c1)[x := add AND 0xFF]\<rparr>)
        else if b = 0x5 then c\<lparr>v := (v c)[x := xVal - yVal]\<rparr>
        else if b = 0x6 then c\<lparr>v := (v c)[x := drop_bit 1 xVal]\<rparr>
        else if b = 0x7 then c\<lparr>v := (v c)[x := yVal - xVal]\<rparr>
        else if b = 0xE then c\<lparr>v := (v c)[x := push_bit 1 xVal]\<rparr>
        else c)"

section \<open>One cycle\<close>

text \<open>
  The loop of the draw opcode: \<open>i\<close> runs from \<^verbatim>\<open>spriteAddr\<close> up to \<open>bound\<close>, \<open>j\<close> counts
  the rows, and each turn stores the whole byte \<^verbatim>\<open>memory[i]\<close> in \<^verbatim>\<open>gfx[64*x+y+j]\<close>, an
  index computed in \<^verbatim>\<open>uint8\<close>.
\<close>

function draw_loop :: "u8 \<Rightarrow> u8 \<Rightarrow> u16 \<Rightarrow> u16 \<Rightarrow> u8 \<Rightarrow> Chip8 \<Rightarrow> error + Chip8" where
  "draw_loop x y bound i j c =
    (if i < bound
     then if unat (64 * x + y + j) < length (gfx c) \<and> unat i < length (memory c)
          then draw_loop x y bound (i + 1) (j + 1)
                 (c\<lparr>gfx := (gfx c)[unat (64 * x + y + j) := memory c ! unat i]\<rparr>)
          else Inl IndexOutOfRange
     else Inr c)"
  by pat_completeness auto
termination
proof (relation "measure (\<lambda>(x, y, bound, i, j, c). unat bound - unat i)")
  fix x y :: u8 and bound i :: u16 and j :: u8 and c :: Chip8
  assume "i < bound"
  then have "unat bound - unat (i + 1) < unat bound - unat i"
    by unat_arith
  then show "((x, y, bound, i + 1, j + 1,
               c\<lparr>gfx := (gfx c)[unat (64 * x + y + j) := memory c ! unat i]\<rparr>),
              (x, y, bound, i, j, c))
             \<in> measure (\<lambda>(x, y, bound, i, j, c). unat bound - unat i)"
    by simp
qed simp

declare draw_loop.simps [simp del]

text \<open>
  The \<^verbatim>\<open>switch\<close> of \<^verbatim>\<open>Execute\<close> in the later revision.  \<^verbatim>\<open>x\<close> and \<^verbatim>\<open>y\<close> are the register
  selectors; the calls of \<^verbatim>\<open>fmt.Println\<close> write to the terminal only and are left out.
  \<^verbatim>\<open>clear(c.gfx)\<close> zeroes every cell of the slice.  A top nibble with no case (0xB, 0xC,
  0xE) and a bottom byte of class 0xF with no case fall out of the \<^verbatim>\<open>switch\<close> with the
  state as it is.
\<close>

definition Execute_switch :: "Chip8 \<Rightarrow> error + Chip8" where
  "Execute_switch c =
    (let top = topNibble (inst c);
         x = unat (GetXReg c);
         y = unat (GetYReg c)
     in if top = 0x0 then
          (let c1 = (if bottomNibble (inst c) = 0x0
                     then c\<lparr>gfx := replicate (length (gfx c)) 0\<rparr>
                     else c)
           in Inr (IncPC c1))
        else if top = 0x1 then Inr (SetPC c (targetAddr (inst c)))
        else if top = 0x2 then Inr (SetPC c (targetAddr (inst c)))
        else if top = 0x3 then
          (case GetImm c 2 of Inl e \<Rightarrow> Inl e
           | Inr imm \<Rightarrow>
               let c1 = IncPC c in Inr (if imm = v c1 ! x then IncPC c1 else c1))
        else if top = 0x4 then
          (case GetImm c 2 of Inl e \<Rightarrow> Inl e
           | Inr imm \<Rightarrow>
               let c1 = IncPC c in Inr (if imm \<noteq> v c1 ! x then IncPC c1 else c1))
        else if top = 0x5 then
          (let c1 = IncPC c in Inr (if v c1 ! x = v c1 ! y then IncPC c1 else c1))
        else if top = 0x6 then
          (case GetImm c 2 of Inl e \<Rightarrow> Inl e
           | Inr imm \<Rightarrow> Inr (IncPC (c\<lparr>v := (v c)[x := imm]\<rparr>)))
        else if top = 0x7 then
          (case GetImm c 2 of Inl e \<Rightarrow> Inl e
           | Inr imm \<Rightarrow> Inr (IncPC (c\<lparr>v := (v c)[x := v c ! x + imm]\<rparr>)))
        else if top = 0x8 then Inr (IncPC (Math8 c))
        else if top = 0x9 then
          (let c1 = IncPC c in Inr (if v c1 ! x \<noteq> v c1 ! y then IncPC c1 else c1))
        else if top = 0xA then Inr (IncPC (SetIndex c))
        else if top = 0xD then
          (let xv = v c ! unat (GetXReg c);
               yv = v c ! unat (GetYReg c)
           in case GetImm c 1 of Inl e \<Rightarrow> Inl e
              | Inr n \<Rightarrow>
                  let spriteAddr = index c;
                      spriteLength = n
                  in (case draw_loop xv yv (ucast (spriteLength + ucast spriteAddr))
                             spriteAddr 0 c of
                        Inl e \<Rightarrow> Inl e
                      | Inr c1 \<Rightarrow> Inr (IncPC c1)))
        else if top = 0xF then
          (let bottom = bottomByte (inst c)
           in if bottom = 0x55 then
                (if unat (index c) < length (memory c)
                 then Inr (IncPC (c\<lparr>memory := (memory c)[unat (index c) := v c ! x]\<rparr>))
                 else Inl IndexOutOfRange)
              else if bottom = 0x65 then
                (if unat (index c) < length (memory c)
                 then Inr (IncPC (c\<lparr>v := (v c)[x := memory c ! unat (index c)]\<rparr>))
                 else Inl IndexOutOfRange)
              else Inr c)
        else Inr c)"

text \<open>The two countdowns that end \<^verbatim>\<open>Execute\<close> in the later revision.\<close>

definition Execute_timers :: "Chip8 \<Rightarrow> Chip8" where
  "Execute_timers c =
    (let c1 = (if 0 < delayTimer c then c\<lparr>delayTimer := delayTimer c - 1\<rparr> else c)
     in if 0 < soundTimer c1 then c1\<lparr>soundTimer := soundTimer c1 - 1\<rparr> else c1)"

text \<open>
  \<^verbatim>\<open>Execute\<close> of the later revision: decode, return at once on the word 0, otherwise
  dispatch and count the timers down.  A panic anywhere ends the cycle with the error.
\<close>

definition Execute :: "Chip8 \<Rightarrow> error + Chip8" where
  "Execute c0 =
    (case Decode c0 of Inl e \<Rightarrow> Inl e
     | Inr c \<Rightarrow>
         if inst c = 0x0 then Inr c
         else (case Execute_switch c of Inl e \<Rightarrow> Inl e
               | Inr c1 \<Rightarrow> Inr (Execute_timers c1)))"

text \<open>
  The \<^verbatim>\<open>switch\<close> of \<^verbatim>\<open>Execute\<close> in the earlier revision (\<^verbatim>\<open>main.go\<close>): class 0 only
  prints, and there is no case 0xD.
\<close>

definition Execute_main_switch :: "Chip8 \<Rightarrow> error + Chip8" where
  "Execute_main_switch c =
    (let top = topNibble (inst c);
         x = unat (GetXReg c);
         y = unat (GetYReg c)
     in if top = 0x0 then Inr (IncPC c)
        else if top = 0x1 then Inr (SetPC c (targetAddr (inst c)))
        else if top = 0x2 then Inr (SetPC c (targetAddr (inst c)))
        else if top = 0x3 then
          (case GetImm c 2 of Inl e \<Rightarrow> Inl e
           | Inr imm \<Rightarrow>
               let c1 = IncPC c in Inr (if imm = v c1 ! x then IncPC c1 else c1))
        else if top = 0x4 then
          (case GetImm c 2 of Inl e \<Rightarrow> Inl e
           | Inr imm \<Rightarrow>
               let c1 = IncPC c in Inr (if imm \<noteq> v c1 ! x then IncPC c1 else c1))
        else if top = 0x5 then
          (let c1 = IncPC c in Inr (if v c1 ! x = v c1 ! y then IncPC c1 else c1))
        else if top = 0x6 then
          (case GetImm c 2 of Inl e \<Rightarrow> Inl e
           | Inr imm \<Rightarrow> Inr (IncPC (c\<lparr>v := (v c)[x := imm]\<rparr>)))
        else if top = 0x7 then
          (case GetImm c 2 of Inl e \<Rightarrow> Inl e
           | Inr imm \<Rightarrow> Inr (IncPC (c\<lparr>v := (v c)[x := v c ! x + imm]\<rparr>)))
        else if top = 0x8 then Inr (IncPC (Math8 c))
        else if top = 0x9 then
          (let c1 = IncPC c in Inr (if v c1 ! x \<noteq> v c1 ! y then IncPC c1 else c1))
        else if top = 0xA then Inr (IncPC (SetIndex c))
        else if top = 0xF then
          (let bottom = bottomByte (inst c)
           in if bottom = 0x55 then
                (if unat (index c) < length (memory c)
                 then Inr (IncPC (c\<lparr>memory := (memory c)[unat (index c) := v c ! x]\<rparr>))
                 else Inl IndexOutOfRange)
              else if bottom = 0x65 then
                (if unat (index c) < length (memory c)
                 then Inr (IncPC (c\<lparr>v := (v c)[x := memory c ! unat (index c)]\<rparr>))
                 else Inl IndexOutOfRange)
              else Inr c)
        else Inr c)"

text \<open>
  \<^verbatim>\<open>Execute\<close> of the earlier revision: the word 0 ends the process with \<^verbatim>\<open>os.Exit(0)\<close>, and
  no timer is touched.
\<close>

definition Execute_main :: "Chip8 \<Rightarrow> error + Chip8" where
  "Execute_main c0 =
    (case Decode c0 of Inl e \<Rightarrow> Inl e
     | Inr c \<Rightarrow> if inst c = 0x0 then Inl Exit else Execute_main_switch c)"

text \<open>
  The driver loop of the tests, \<^verbatim>\<open>for i := 0; i < n; i++ { chip.Execute() }\<close>, stopped by
  the first panic.
\<close>

fun cycles :: "nat \<Rightarrow> Chip8 \<Rightarrow> error + Chip8" where
  "cycles 0 c = Inr c"
| "cycles (Suc n) c =
    (case Execute c of Inl e \<Rightarrow> Inl e | Inr c1 \<Rightarrow> cycles n c1)"

text \<open>
  The machine that \<^verbatim>\<open>NewChip\<close> returns for a program that is not empty and fits into the
  memory above \<^verbatim>\<open>progStart\<close> (lemma \<open>NewChip_loaded\<close> below).
\<close>

definition loaded :: "u8 list \<Rightarrow> Chip8" where
  "loaded prog =
    (Init new_Chip8)\<lparr>memory :=
       take progStart (memory (Init new_Chip8)) @ prog
         @ drop (progStart + length prog) (memory (Init new_Chip8))\<rparr>"

text \<open>
  What \<^verbatim>\<open>Init\<close> establishes and every cycle keeps: the two arrays have their 16 cells, the
  memory has \<open>memSize\<close> bytes, the display 64 by 32 cells, and the index register, only
  ever written through the 12-bit mask of \<^verbatim>\<open>SetIndex\<close>, points into the memory.
\<close>

definition machine_inv :: "Chip8 \<Rightarrow> bool" where
  "machine_inv c \<longleftrightarrow>
     well_formed c \<and> length (memory c) = memSize \<and> length (gfx c) = 64 * 32 \<and>
     unat (index c) < memSize"

section \<open>Vocabulary of the specification\<close>

text \<open>
  The fields that a conditional skip, a jump or a timer must not touch: the sixteen
  registers, the index register, the memory, the display, the stack and its pointer.
\<close>

definition data_unchanged :: "Chip8 \<Rightarrow> Chip8 \<Rightarrow> bool" where
  "data_unchanged c c' \<longleftrightarrow>
     v c' = v c \<and> index c' = index c \<and> memory c' = memory c \<and> gfx c' = gfx c \<and>
     stack c' = stack c \<and> sp c' = sp c"

text \<open>
  The fields of an instruction word \<open>w\<close> as the specification's decoder section gives
  them, by bit position: the opcode class is bits 15 to 12, \<open>regX\<close> bits 11 to 8, \<open>regY\<close>
  bits 7 to 4, \<open>immByte\<close> bits 7 to 0, \<open>immNibble\<close> bits 3 to 0 and \<open>address\<close> bits 11
  to 0.  The lemmas \<open>unat_topNibble\<close> to \<open>unat_imm1\<close> below show that the masks and
  shifts of the code extract exactly these.
\<close>

definition spec_opcodeClass :: "u16 \<Rightarrow> nat" where
  "spec_opcodeClass w = unat w div 4096"

definition spec_regX :: "u16 \<Rightarrow> nat" where
  "spec_regX w = (unat w div 256) mod 16"

definition spec_regY :: "u16 \<Rightarrow> nat" where
  "spec_regY w = (unat w div 16) mod 16"

definition spec_immByte :: "u16 \<Rightarrow> nat" where
  "spec_immByte w = unat w mod 256"

definition spec_immNibble :: "u16 \<Rightarrow> nat" where
  "spec_immNibble w = unat w mod 16"

definition spec_address :: "u16 \<Rightarrow> nat" where
  "spec_address w = unat w mod 4096"

text \<open>
  The condition of the four conditional skips as the specification's opcode table words
  it, read off the instruction word \<open>w\<close> and the registers \<open>regs\<close>: class 3 skips if
  \<open>v[regX] = immByte\<close>, class 4 if \<open>v[regX] \<noteq> immByte\<close>, class 5 if \<open>v[regX] = v[regY]\<close>,
  class 9 if \<open>v[regX] \<noteq> v[regY]\<close>.
\<close>

definition spec_skip_condition :: "u16 \<Rightarrow> u8 list \<Rightarrow> bool" where
  "spec_skip_condition w regs =
    (if spec_opcodeClass w = 3 then unat (regs ! spec_regX w) = spec_immByte w
     else if spec_opcodeClass w = 4 then unat (regs ! spec_regX w) \<noteq> spec_immByte w
     else if spec_opcodeClass w = 5 then regs ! spec_regX w = regs ! spec_regY w
     else regs ! spec_regX w \<noteq> regs ! spec_regY w)"

text \<open>
  What the store opcode 0xFx55 and the read opcode 0xFx65 may do, as claim C9 words it:
  store writes the one cell \<open>memory[index]\<close> and no register; read writes the one
  register \<open>v[x]\<close> and no memory cell; the index register, the stack and the display stay.
\<close>

definition store_effect :: "Chip8 \<Rightarrow> nat \<Rightarrow> Chip8 \<Rightarrow> bool" where
  "store_effect c x c' \<longleftrightarrow>
     memory c' = (memory c)[unat (index c) := v c ! x] \<and>
     memory c' ! unat (index c) = v c ! x \<and>
     v c' = v c \<and> index c' = index c \<and> stack c' = stack c \<and> sp c' = sp c \<and>
     gfx c' = gfx c \<and> pc c' = pc c + 2"

definition read_effect :: "Chip8 \<Rightarrow> nat \<Rightarrow> Chip8 \<Rightarrow> bool" where
  "read_effect c x c' \<longleftrightarrow>
     v c' = (v c)[x := memory c ! unat (index c)] \<and>
     v c' ! x = memory c ! unat (index c) \<and>
     memory c' = memory c \<and> index c' = index c \<and> stack c' = stack c \<and> sp c' = sp c \<and>
     gfx c' = gfx c \<and> pc c' = pc c + 2"

text \<open>
  The draw contract in the specification's words, on a display of 64 by 32 cells stored
  row by row, each 0 or 1: for each row of the sprite and each of its eight bits, most
  significant first, a 1 bit is XORed into the cell at
  \<open>((X + column) mod 64, (Y + row) mod 32)\<close>; the flag is 1 if some cell went from lit
  to unlit, else 0.
\<close>

definition spec_draw_pixel :: "u8 \<Rightarrow> nat \<Rightarrow> nat \<Rightarrow> nat \<Rightarrow> u8 list \<times> bool \<Rightarrow> nat \<Rightarrow> u8 list \<times> bool" where
  "spec_draw_pixel byte X Y row acc col =
    (let disp = fst acc;
         cell = ((Y + row) mod 32) * 64 + (X + col) mod 64
     in if bit byte (7 - col)
        then (disp[cell := disp ! cell XOR 1], snd acc \<or> disp ! cell = 1)
        else acc)"

fun spec_draw_rows :: "u8 list \<Rightarrow> nat \<Rightarrow> nat \<Rightarrow> nat \<Rightarrow> u8 list \<times> bool \<Rightarrow> u8 list \<times> bool" where
  "spec_draw_rows [] X Y row acc = acc"
| "spec_draw_rows (b # bs) X Y row acc =
     spec_draw_rows bs X Y (Suc row) (foldl (spec_draw_pixel b X Y row) acc [0, 1, 2, 3, 4, 5, 6, 7])"

definition spec_draw :: "u8 list \<Rightarrow> u8 list \<Rightarrow> nat \<Rightarrow> nat \<Rightarrow> u8 list \<times> u8" where
  "spec_draw disp sprite X Y =
    (let r = spec_draw_rows sprite X Y 0 (disp, False)
     in (fst r, if snd r then 1 else 0))"

section \<open>Example machines\<close>

text \<open>
  A machine about to store \<open>v0 = 0xAB\<close> at \<open>memory[0x00A]\<close> and read it back (the
  scenario of \<^verbatim>\<open>TestStor\<close>), and one about to read the first font byte into \<open>v0\<close>.
\<close>

definition ex_store :: Chip8 where
  "ex_store = (loaded [0xF0, 0x55, 0xF0, 0x65])\<lparr>v := (replicate 16 0)[0 := 0xAB], index := 0x00A\<rparr>"

definition ex_read :: Chip8 where
  "ex_read = (loaded [0xF0, 0x65])\<lparr>index := 0x050\<rparr>"

text \<open>A machine about to call \<open>0x204\<close>, where a return \<open>0x00EE\<close> waits.\<close>

definition ex_call :: Chip8 where
  "ex_call = loaded [0x22, 0x04, 0x00, 0x00, 0x00, 0xEE]"

text \<open>Three small programs: an addition that overflows, a right shift and a left shift.\<close>

definition prog_add :: "u8 list" where
  "prog_add = [0x60, 0xC8, 0x61, 0x64, 0x80, 0x14]"

definition prog_shr :: "u8 list" where
  "prog_shr = [0x60, 0x01, 0x80, 0x06]"

definition prog_shl :: "u8 list" where
  "prog_shl = [0x60, 0x80, 0x80, 0x0E]"

text \<open>The machines after the first cycle of the two shift programs, about to shift.\<close>

definition ex_shr :: Chip8 where
  "ex_shr = (loaded prog_shr)\<lparr>inst := 0x6001, v := 0x01 # 0 # replicate 14 0, pc := 0x202\<rparr>"

definition ex_shl :: Chip8 where
  "ex_shl = (loaded prog_shl)\<lparr>inst := 0x6080, v := 0x80 # 0 # replicate 14 0, pc := 0x202\<rparr>"

text \<open>Three one-instruction programs with words the dispatcher has no case for.\<close>

definition prog_unknown_F :: "u8 list" where
  "prog_unknown_F = [0xF0, 0x07]"

definition prog_unknown_B :: "u8 list" where
  "prog_unknown_B = [0xB1, 0x23]"

definition prog_unknown_8 :: "u8 list" where
  "prog_unknown_8 = [0x80, 0x08]"

text \<open>
  A program that points the index register at the font and draws a sprite of one row
  twice; the machines after its first and after its second cycle.
\<close>

definition prog_draw :: "u8 list" where
  "prog_draw = [0xA0, 0x50, 0xD0, 0x11, 0xD0, 0x11]"

definition ex_draw :: Chip8 where
  "ex_draw = (loaded prog_draw)\<lparr>inst := 0xA050, index := 0x050, pc := 0x202\<rparr>"

definition ex_drawn :: Chip8 where
  "ex_drawn = (loaded prog_draw)\<lparr>inst := 0xD011, index := 0x050, pc := 0x204,
                                  gfx := (replicate 2048 0)[0 := 0xF0]\<rparr>"

text \<open>A program that sets the index register and then loads \<open>v0\<close>.\<close>

definition prog_index :: "u8 list" where
  "prog_index = [0xA1, 0x23, 0x60, 0xAB]"

section \<open>Words and instruction fields\<close>

lemma and_255_u8: "(a :: u8) AND 0xFF = a"
proof -
  have "(0xFF :: u8) = mask 8" by (simp add: mask_eq_exp_minus_1)
  then have "a AND 0xFF = take_bit 8 a" by (simp add: take_bit_eq_mask)
  also have "\<dots> = a" using take_bit_length_eq[of a] by simp
  finally show ?thesis .
qed

lemma unat_and_mask: "unat ((w :: 'a::len word) AND mask n) = unat w mod 2 ^ n"
proof -
  have "unat (w AND mask n) = unat (take_bit n w)" by (simp add: take_bit_eq_mask)
  also have "\<dots> = take_bit n (unat w)" by (rule unsigned_take_bit_eq)
  also have "\<dots> = unat w mod 2 ^ n" by (rule take_bit_eq_mod)
  finally show ?thesis .
qed

lemma unat_and_15: "unat ((w :: u16) AND 0xF) = unat w mod 16"
  using unat_and_mask[of w 4] by (simp add: mask_eq_exp_minus_1)
lemma unat_and_255: "unat ((w :: u16) AND 0xFF) = unat w mod 256"
  using unat_and_mask[of w 8] by (simp add: mask_eq_exp_minus_1)
lemma unat_and_4095: "unat ((w :: u16) AND 0xFFF) = unat w mod 4096"
  using unat_and_mask[of w 12] by (simp add: mask_eq_exp_minus_1)

lemma unat_topNibble: "unat (topNibble w) = spec_opcodeClass w"
proof -
  have "unat w < 65536" using unsigned_less[of w, where 'a=nat] by simp
  then have "unat w div 4096 < 16" by simp
  moreover have "topNibble w = drop_bit 12 w AND 0xF" by (simp add: topNibble_def)
  ultimately show ?thesis
    by (simp add: unat_and_15 unat_drop_bit_eq drop_bit_eq_div unat_div spec_opcodeClass_def)
qed

lemma unat_GetXReg: "unat (GetXReg c) = spec_regX (inst c)"
proof -
  have "GetXReg c = drop_bit 8 (inst c) AND 0xF" by (simp add: GetXReg_def)
  then show ?thesis
    by (simp add: unat_and_15 unat_drop_bit_eq drop_bit_eq_div unat_div spec_regX_def)
qed

lemma unat_GetYReg: "unat (GetYReg c) = spec_regY (inst c)"
proof -
  have "GetYReg c = drop_bit 4 (inst c) AND 0xF" by (simp add: GetYReg_def)
  then show ?thesis
    by (simp add: unat_and_15 unat_drop_bit_eq drop_bit_eq_div unat_div spec_regY_def)
qed

lemma unat_bottomNibble: "unat (bottomNibble w) = spec_immNibble w"
  by (simp add: bottomNibble_def unat_and_15 spec_immNibble_def)

lemma unat_bottomByte: "unat (bottomByte w) = spec_immByte w"
  by (simp add: bottomByte_def unat_and_255 spec_immByte_def)

lemma unat_targetAddr: "unat (targetAddr w) = spec_address w"
  by (simp add: targetAddr_def unat_and_4095 spec_address_def)

lemma unat_ucast_u16_u8: "unat (ucast (w :: u16) :: u8) = unat w mod 256"
  by (simp add: unsigned_ucast_eq take_bit_eq_mod)

lemma unat_imm2: "unat (ucast ((w :: u16) AND 0xFF) :: u8) = spec_immByte w"
  by (simp add: unat_ucast_u16_u8 unat_and_255 spec_immByte_def)

lemma unat_imm1: "unat (ucast ((w :: u16) AND 0xF) :: u8) = spec_immNibble w"
  by (simp add: unat_ucast_u16_u8 unat_and_15 spec_immNibble_def mod_mod_cancel)

lemma regX_lt: "spec_regX w < 16"
  by (simp add: spec_regX_def)

lemma regY_lt: "spec_regY w < 16"
  by (simp add: spec_regY_def)

section \<open>Fetching\<close>

lemma Decode_Inr_eq: "Decode c0 = Inr c \<Longrightarrow> c = c0\<lparr>inst := inst c\<rparr>"
  by (auto simp: Decode_def Let_def split: if_splits)

lemma Decode_Inr_range:
  "Decode c0 = Inr c \<Longrightarrow> unat (pc c0) < length (memory c0) \<and> unat (pc c0 + 1) < length (memory c0)"
  by (auto simp: Decode_def Let_def split: if_splits)

lemma Decode_fields:
  assumes "Decode c0 = Inr c"
  shows "v c = v c0" "pc c = pc c0" "index c = index c0" "memory c = memory c0"
    "gfx c = gfx c0" "stack c = stack c0" "sp c = sp c0"
    "delayTimer c = delayTimer c0" "soundTimer c = soundTimer c0"
  by (subst Decode_Inr_eq[OF assms], simp)+

lemma topNibble_class: "topNibble w = of_nat (spec_opcodeClass w)"
  by (simp flip: unat_topNibble)

lemma class_nonzero: "spec_opcodeClass w \<noteq> 0 \<Longrightarrow> w \<noteq> 0"
  by (auto simp: spec_opcodeClass_def)

lemma GetImm_2: "GetImm c 2 = Inr (ucast (inst c AND 0x00FF))"
  by (simp add: GetImm_def)

lemma GetImm_1: "GetImm c 1 = Inr (ucast (inst c AND 0x000F))"
  by (simp add: GetImm_def)

lemma imm_eq_iff: "(ucast ((w :: u16) AND 0xFF) :: u8) = a \<longleftrightarrow> unat a = spec_immByte w"
  by (auto simp: word_unat_eq_iff unat_imm2)

lemma imm_eq_iff': "a = (ucast ((w :: u16) AND 0xFF) :: u8) \<longleftrightarrow> unat a = spec_immByte w"
  by (auto simp: word_unat_eq_iff unat_imm2)

lemma pc_advance_nat:
  assumes "unat (p :: u16) < 4096"
  shows "unat (p + 2) = unat p + 2" "unat (p + 4) = unat p + 4"
  using assms by (simp_all add: unat_word_ariths)

lemma Execute_timers_fields:
  "v (Execute_timers c) = v c" "pc (Execute_timers c) = pc c" "index (Execute_timers c) = index c"
  "memory (Execute_timers c) = memory c" "gfx (Execute_timers c) = gfx c"
  "stack (Execute_timers c) = stack c" "sp (Execute_timers c) = sp c" "inst (Execute_timers c) = inst c"
  by (simp_all add: Execute_timers_def Let_def)

section \<open>The machine after loading a program\<close>

lemma length_fontSet: "length fontSet = 80"
  by (simp add: fontSet_def)

lemma Init_memory_length: "length (memory (Init c)) = 4096"
  by (simp add: Init_def length_fontSet FONT_OFFSET_def FONTSET_SIZE_def memSize_def)

lemma loaded_fields:
  "pc (loaded prog) = 0x200" "v (loaded prog) = replicate 16 0" "index (loaded prog) = 0"
  "gfx (loaded prog) = replicate 2048 0" "delayTimer (loaded prog) = 0"
  "soundTimer (loaded prog) = 0" "stack (loaded prog) = replicate 16 0" "sp (loaded prog) = 0"
  by (simp_all add: loaded_def Init_def new_Chip8_def progStart_def)

lemma loaded_memory_length:
  "length prog \<le> 3584 \<Longrightarrow> length (memory (loaded prog)) = 4096"
  by (simp add: loaded_def Init_memory_length progStart_def)

lemma loaded_memory_prog:
  "512 \<le> i \<Longrightarrow> i < 512 + length prog \<Longrightarrow> memory (loaded prog) ! i = prog ! (i - 512)"
proof -
  assume a: "512 \<le> i" "i < 512 + length prog"
  then have "i - 512 < length prog" by arith
  with a show ?thesis
    by (simp add: loaded_def Init_memory_length progStart_def nth_append)
qed

lemma loaded_memory_low:
  "i < 512 \<Longrightarrow> memory (loaded prog) ! i = memory (Init new_Chip8) ! i"
  by (simp add: loaded_def Init_memory_length progStart_def nth_append)

lemma NewChip_loaded:
  assumes "prog \<noteq> []" and "length prog \<le> 3584"
  shows "NewChip prog = Inr (loaded prog)"
  using assms
  by (simp add: NewChip_def LoadProgram_def loaded_def Init_memory_length progStart_def Let_def min_def)

lemma well_formed_loaded: "well_formed (loaded prog)"
  by (simp add: well_formed_def loaded_fields)

lemma drop_bit_8_ucast: "drop_bit 8 (ucast (b :: u8) :: u16) = 0"
  by (rule bit_word_eqI) (auto simp: bit_simps dest: bit_imp_le_length)

lemma RotateLeft16_byte: "RotateLeft16 (ucast (b :: u8)) 8 = push_bit 8 (ucast b)"
  by (simp add: RotateLeft16_def drop_bit_8_ucast)

lemma Decode_loaded:
  assumes "2 \<le> length prog" "length prog \<le> 3584"
  shows "Decode (loaded prog) = Inr ((loaded prog)\<lparr>inst := push_bit 8 (ucast (prog ! 0)) OR ucast (prog ! 1)\<rparr>)"
proof -
  have "memory (loaded prog) ! 512 = prog ! (512 - 512)"
    using assms by (intro loaded_memory_prog) auto
  moreover have "memory (loaded prog) ! 513 = prog ! (513 - 512)"
    using assms by (intro loaded_memory_prog) auto
  ultimately have "memory (loaded prog) ! 512 = prog ! 0" "memory (loaded prog) ! 513 = prog ! 1"
    by simp_all
  then show ?thesis
    using assms
    by (simp add: Decode_def loaded_fields loaded_memory_length RotateLeft16_byte Let_def)
qed

section \<open>Conditional skips\<close>

lemma skip_switch:
  assumes "spec_opcodeClass (inst c) = 3 \<or> spec_opcodeClass (inst c) = 4
              \<or> spec_opcodeClass (inst c) = 5 \<or> spec_opcodeClass (inst c) = 9"
  shows "Execute_switch c = Inr (c\<lparr>pc := pc c + (if spec_skip_condition (inst c) (v c) then 4 else 2)\<rparr>)"
    and "Execute_main_switch c = Inr (c\<lparr>pc := pc c + (if spec_skip_condition (inst c) (v c) then 4 else 2)\<rparr>)"
proof -
  from assms consider (3) "spec_opcodeClass (inst c) = 3" | (4) "spec_opcodeClass (inst c) = 4"
    | (5) "spec_opcodeClass (inst c) = 5" | (9) "spec_opcodeClass (inst c) = 9"
    by blast
  then have "Execute_switch c = Inr (c\<lparr>pc := pc c + (if spec_skip_condition (inst c) (v c) then 4 else 2)\<rparr>)
     \<and> Execute_main_switch c = Inr (c\<lparr>pc := pc c + (if spec_skip_condition (inst c) (v c) then 4 else 2)\<rparr>)"
  proof cases
    case 3
    then have t: "topNibble (inst c) = 3" by (simp add: topNibble_class)
    show ?thesis
      by (simp add: Execute_switch_def Execute_main_switch_def t GetImm_2 Let_def IncPC_def
       spec_skip_condition_def 3 imm_eq_iff imm_eq_iff' unat_GetXReg)
  next
    case 4
    then have t: "topNibble (inst c) = 4" by (simp add: topNibble_class)
    show ?thesis
      by (simp add: Execute_switch_def Execute_main_switch_def t GetImm_2 Let_def IncPC_def
       spec_skip_condition_def 4 imm_eq_iff imm_eq_iff' unat_GetXReg)
  next
    case 5
    then have t: "topNibble (inst c) = 5" by (simp add: topNibble_class)
    show ?thesis
      by (simp add: Execute_switch_def Execute_main_switch_def t Let_def IncPC_def
       spec_skip_condition_def 5 unat_GetXReg unat_GetYReg)
  next
    case 9
    then have t: "topNibble (inst c) = 9" by (simp add: topNibble_class)
    show ?thesis
      by (simp add: Execute_switch_def Execute_main_switch_def t Let_def IncPC_def
       spec_skip_condition_def 9 unat_GetXReg unat_GetYReg)
  qed
  then show "Execute_switch c = Inr (c\<lparr>pc := pc c + (if spec_skip_condition (inst c) (v c) then 4 else 2)\<rparr>)"
    and "Execute_main_switch c = Inr (c\<lparr>pc := pc c + (if spec_skip_condition (inst c) (v c) then 4 else 2)\<rparr>)"
    by simp_all
qed

text \<open>
  Claim C7.  When the fetched word belongs to class 3, 4, 5 or 9, one cycle returns
  normally, the program counter has advanced by 4 if the documented condition of that
  class holds and by 2 if it does not, and the registers, the index register, the memory,
  the display, the stack and the stack pointer are as before.  This holds for both
  revisions.  With a memory of at most \<open>memSize\<close> bytes the 16-bit sum does not wrap, so
  the advance is exact as a number too.  (The timers are the subject of claim C5.)
\<close>

theorem skip_instructions:
  assumes dec: "Decode c0 = Inr c"
    and cls: "spec_opcodeClass (inst c) = 3 \<or> spec_opcodeClass (inst c) = 4
              \<or> spec_opcodeClass (inst c) = 5 \<or> spec_opcodeClass (inst c) = 9"
  shows "(\<exists>c'. Execute c0 = Inr c' \<and>
            pc c' = pc c0 + (if spec_skip_condition (inst c) (v c0) then 4 else 2) \<and>
            (length (memory c0) \<le> memSize \<longrightarrow>
               unat (pc c') = unat (pc c0) + (if spec_skip_condition (inst c) (v c0) then 4 else 2)) \<and>
            data_unchanged c0 c') \<and>
         (\<exists>c'. Execute_main c0 = Inr c' \<and>
            pc c' = pc c0 + (if spec_skip_condition (inst c) (v c0) then 4 else 2) \<and>
            (length (memory c0) \<le> memSize \<longrightarrow>
               unat (pc c') = unat (pc c0) + (if spec_skip_condition (inst c) (v c0) then 4 else 2)) \<and>
            data_unchanged c0 c')"
proof -
  from cls have nz: "inst c \<noteq> 0"
    by (auto simp: spec_opcodeClass_def)
  note f = Decode_fields[OF dec]
  have rng: "length (memory c0) \<le> memSize \<Longrightarrow> unat (pc c0) < 4096"
    using Decode_Inr_range[OF dec] by (simp add: memSize_def)
  show ?thesis
    using nz rng
    by (simp add: Execute_def Execute_main_def dec skip_switch[OF cls] f Execute_timers_fields
        data_unchanged_def pc_advance_nat)
qed

theorem skip_instructions_witness:
  "Decode (loaded [0x30, 0x00]) = Inr ((loaded [0x30, 0x00])\<lparr>inst := 0x3000\<rparr>) \<and>
   spec_opcodeClass 0x3000 = 3 \<and>
   (\<exists>c'. Execute (loaded [0x30, 0x00]) = Inr c' \<and> pc c' = 0x204 \<and> data_unchanged (loaded [0x30, 0x00]) c')"
proof -
  have d: "Decode (loaded [0x30, 0x00]) = Inr ((loaded [0x30, 0x00])\<lparr>inst := 0x3000\<rparr>)"
    by (simp add: Decode_loaded)
  have k: "spec_opcodeClass 0x3000 = 3"
    by (simp add: spec_opcodeClass_def)
  have s: "spec_skip_condition 0x3000 (replicate 16 0)"
    by (simp add: spec_skip_condition_def k spec_regX_def spec_immByte_def)
  show ?thesis
    using skip_instructions[OF d] d k s by (auto simp: loaded_fields)
qed

section \<open>The dispatcher\<close>

lemma bottomByte_imm: "bottomByte w = of_nat (spec_immByte w)"
  by (simp flip: unat_bottomByte)

lemma bottomNibble_imm: "bottomNibble w = of_nat (spec_immNibble w)"
  by (simp flip: unat_bottomNibble)

lemma Decode_at:
  assumes "unat (pc c) + 1 < length (memory c)" and "length (memory c) \<le> 4096"
  shows "Decode c = Inr (c\<lparr>inst := push_bit 8 (ucast (memory c ! unat (pc c)))
                                   OR ucast (memory c ! (unat (pc c) + 1))\<rparr>)"
proof -
  have "unat (pc c) < 4095" using assms by simp
  then have "unat (pc c + 1) = unat (pc c) + 1"
    by (simp add: unat_word_ariths)
  with assms show ?thesis
    by (simp add: Decode_def RotateLeft16_byte Let_def)
qed

lemma store_switch:
  assumes "spec_opcodeClass (inst c) = 15" and "spec_immByte (inst c) = 0x55"
    and "unat (index c) < length (memory c)"
  shows "Execute_switch c =
           Inr (c\<lparr>memory := (memory c)[unat (index c) := v c ! spec_regX (inst c)], pc := pc c + 2\<rparr>)"
    and "Execute_main_switch c =
           Inr (c\<lparr>memory := (memory c)[unat (index c) := v c ! spec_regX (inst c)], pc := pc c + 2\<rparr>)"
  using assms
  by (simp_all add: Execute_switch_def Execute_main_switch_def topNibble_class bottomByte_imm
        Let_def IncPC_def unat_GetXReg)

lemma read_switch:
  assumes "spec_opcodeClass (inst c) = 15" and "spec_immByte (inst c) = 0x65"
    and "unat (index c) < length (memory c)"
  shows "Execute_switch c =
           Inr (c\<lparr>v := (v c)[spec_regX (inst c) := memory c ! unat (index c)], pc := pc c + 2\<rparr>)"
    and "Execute_main_switch c =
           Inr (c\<lparr>v := (v c)[spec_regX (inst c) := memory c ! unat (index c)], pc := pc c + 2\<rparr>)"
  using assms
  by (simp_all add: Execute_switch_def Execute_main_switch_def topNibble_class bottomByte_imm
        Let_def IncPC_def unat_GetXReg)

lemma store_read_oob:
  assumes "spec_opcodeClass (inst c) = 15" and "spec_immByte (inst c) = 0x55 \<or> spec_immByte (inst c) = 0x65"
    and "\<not> unat (index c) < length (memory c)"
  shows "Execute_switch c = Inl IndexOutOfRange" and "Execute_main_switch c = Inl IndexOutOfRange"
  using assms
  by (auto simp add: Execute_switch_def Execute_main_switch_def topNibble_class bottomByte_imm
        Let_def IncPC_def unat_GetXReg)

lemma Execute_via_switch:
  assumes "Decode c0 = Inr c" and "inst c \<noteq> 0" and "Execute_switch c = Inr c1"
  shows "Execute c0 = Inr (Execute_timers c1)"
  using assms by (simp add: Execute_def)

lemma Execute_main_via_switch:
  assumes "Decode c0 = Inr c" and "inst c \<noteq> 0"
  shows "Execute_main c0 = Execute_main_switch c"
  using assms by (simp add: Execute_main_def)

lemma class_15_nonzero: "spec_opcodeClass w = 15 \<Longrightarrow> w \<noteq> 0"
  by (auto simp: spec_opcodeClass_def)

lemma Execute_timers_zero:
  "delayTimer c = 0 \<Longrightarrow> soundTimer c = 0 \<Longrightarrow> Execute_timers c = c"
  by (simp add: Execute_timers_def)

lemmas loaded_simps = loaded_fields loaded_memory_length loaded_memory_prog loaded_memory_low

section \<open>Store and read\<close>

text \<open>
  Claim C9.  With the index register inside the memory, the store opcode 0xFx55 writes the
  single cell \<open>memory[index]\<close> with \<open>v[x]\<close> and the read opcode 0xFx65 writes the single
  register \<open>v[x]\<close> with \<open>memory[index]\<close>: one byte each, not the range \<open>v0..vx\<close>.  Every
  other register and memory cell, the index register, the stack, the stack pointer and
  the display are unchanged, and the program counter advances by 2; in both revisions.
  (The timers are the subject of claim C5.)
\<close>

theorem store_read_frame:
  assumes dec: "Decode c0 = Inr c"
    and cls: "spec_opcodeClass (inst c) = 15"
    and idx: "unat (index c0) < length (memory c0)"
    and wf: "well_formed c0"
  shows "(spec_immByte (inst c) = 0x55 \<longrightarrow>
            (\<exists>c'. Execute c0 = Inr c' \<and> store_effect c0 (spec_regX (inst c)) c') \<and>
            (\<exists>c'. Execute_main c0 = Inr c' \<and> store_effect c0 (spec_regX (inst c)) c')) \<and>
         (spec_immByte (inst c) = 0x65 \<longrightarrow>
            (\<exists>c'. Execute c0 = Inr c' \<and> read_effect c0 (spec_regX (inst c)) c') \<and>
            (\<exists>c'. Execute_main c0 = Inr c' \<and> read_effect c0 (spec_regX (inst c)) c'))"
proof -
  note f = Decode_fields[OF dec]
  have nz: "inst c \<noteq> 0" using cls by (rule class_15_nonzero)
  have idx': "unat (index c) < length (memory c)" using idx by (simp add: f)
  have x: "spec_regX (inst c) < length (v c0)"
    using wf regX_lt[of "inst c"] by (simp add: well_formed_def)
  show ?thesis
  proof (intro conjI impI)
    assume st: "spec_immByte (inst c) = 0x55"
    show "\<exists>c'. Execute c0 = Inr c' \<and> store_effect c0 (spec_regX (inst c)) c'"
      using Execute_via_switch[OF dec nz store_switch(1)[OF cls st idx']] idx
      by (simp add: store_effect_def Execute_timers_fields f)
    show "\<exists>c'. Execute_main c0 = Inr c' \<and> store_effect c0 (spec_regX (inst c)) c'"
      using Execute_main_via_switch[OF dec nz] store_switch(2)[OF cls st idx'] idx
      by (simp add: store_effect_def f)
  next
    assume rd: "spec_immByte (inst c) = 0x65"
    show "\<exists>c'. Execute c0 = Inr c' \<and> read_effect c0 (spec_regX (inst c)) c'"
      using Execute_via_switch[OF dec nz read_switch(1)[OF cls rd idx']] x
      by (simp add: read_effect_def Execute_timers_fields f)
    show "\<exists>c'. Execute_main c0 = Inr c' \<and> read_effect c0 (spec_regX (inst c)) c'"
      using Execute_main_via_switch[OF dec nz] read_switch(2)[OF cls rd idx'] x
      by (simp add: read_effect_def f)
  qed
qed

theorem store_read_frame_witness:
  "Decode ex_store = Inr (ex_store\<lparr>inst := 0xF055\<rparr>) \<and>
   spec_opcodeClass 0xF055 = 15 \<and> spec_immByte 0xF055 = 0x55 \<and>
   unat (index ex_store) < length (memory ex_store) \<and> well_formed ex_store \<and>
   (\<exists>c'. Execute ex_store = Inr c' \<and> store_effect ex_store 0 c') \<and>
   Decode ex_read = Inr (ex_read\<lparr>inst := 0xF065\<rparr>) \<and>
   spec_opcodeClass 0xF065 = 15 \<and> spec_immByte 0xF065 = 0x65 \<and>
   unat (index ex_read) < length (memory ex_read) \<and> well_formed ex_read \<and>
   (\<exists>c'. Execute ex_read = Inr c' \<and> read_effect ex_read 0 c')"
proof -
  have d1: "Decode ex_store = Inr (ex_store\<lparr>inst := 0xF055\<rparr>)"
    by (simp add: Decode_at ex_store_def loaded_simps)
  have d2: "Decode ex_read = Inr (ex_read\<lparr>inst := 0xF065\<rparr>)"
    by (simp add: Decode_at ex_read_def loaded_simps)
  have k: "spec_opcodeClass 0xF055 = 15" "spec_immByte 0xF055 = 0x55" "spec_regX 0xF055 = 0"
    "spec_opcodeClass 0xF065 = 15" "spec_immByte 0xF065 = 0x65" "spec_regX 0xF065 = 0"
    by (simp_all add: spec_opcodeClass_def spec_immByte_def spec_regX_def)
  have i1: "unat (index ex_store) < length (memory ex_store)"
    by (simp add: ex_store_def loaded_simps)
  have i2: "unat (index ex_read) < length (memory ex_read)"
    by (simp add: ex_read_def loaded_simps)
  have w1: "well_formed ex_store" and w2: "well_formed ex_read"
    by (simp_all add: well_formed_def ex_store_def ex_read_def loaded_simps)
  show ?thesis
    using store_read_frame[OF d1 _ i1 w1] store_read_frame[OF d2 _ i2 w2] d1 d2 k i1 i2 w1 w2
    by simp
qed

lemma roundtrip_switch:
  assumes cls: "spec_opcodeClass (inst c) = 15" and st: "spec_immByte (inst c) = 0x55"
    and idx: "unat (index c) < length (memory c)"
    and c1: "index c1 = index c" "v c1 = v c"
            "memory c1 = (memory c)[unat (index c) := v c ! spec_regX (inst c)]"
    and dec: "Decode c1 = Inr d"
    and cls': "spec_opcodeClass (inst d) = 15" and rd: "spec_immByte (inst d) = 0x65"
    and x: "spec_regX (inst d) = spec_regX (inst c)"
  shows "Execute_switch d = Inr (d\<lparr>pc := pc d + 2\<rparr>)"
    and "Execute_main_switch d = Inr (d\<lparr>pc := pc d + 2\<rparr>)"
    and "v d = v c" and "index d = index c"
proof -
  note f = Decode_fields[OF dec]
  have idx': "unat (index d) < length (memory d)"
    using idx by (simp add: f c1)
  have val: "memory d ! unat (index d) = v c ! spec_regX (inst c)"
    using idx by (simp add: f c1)
  have "(v d)[spec_regX (inst d) := memory d ! unat (index d)] = v d"
    using idx by (simp add: x f c1)
  then have upd: "d\<lparr>v := (v d)[spec_regX (inst d) := memory d ! unat (index d)], pc := pc d + 2\<rparr>
             = d\<lparr>pc := pc d + 2\<rparr>"
    by simp
  show "Execute_switch d = Inr (d\<lparr>pc := pc d + 2\<rparr>)"
    using read_switch(1)[OF cls' rd idx'] by (simp only: upd)
  show "Execute_main_switch d = Inr (d\<lparr>pc := pc d + 2\<rparr>)"
    using read_switch(2)[OF cls' rd idx'] by (simp only: upd)
  show "v d = v c" "index d = index c" by (simp_all add: f c1)
qed

text \<open>
  Claim C8.  A store 0xFx55 followed by a cycle that fetches the read 0xFx65 of the same
  register leaves \<open>v[x]\<close>, and with it the whole register block, as it was before the
  store, for every index inside the memory and every register value; in both revisions.
\<close>

theorem store_read_roundtrip:
  assumes dec: "Decode c0 = Inr c"
    and cls: "spec_opcodeClass (inst c) = 15"
    and st: "spec_immByte (inst c) = 0x55"
    and idx: "unat (index c0) < length (memory c0)"
  shows "(\<exists>c1. Execute c0 = Inr c1 \<and>
            (\<forall>d. Decode c1 = Inr d \<and> spec_opcodeClass (inst d) = 15 \<and>
                  spec_immByte (inst d) = 0x65 \<and> spec_regX (inst d) = spec_regX (inst c) \<longrightarrow>
               (\<exists>c2. Execute c1 = Inr c2 \<and> index c2 = index c0 \<and>
                  v c2 ! spec_regX (inst c) = v c0 ! spec_regX (inst c) \<and> v c2 = v c0))) \<and>
         (\<exists>c1. Execute_main c0 = Inr c1 \<and>
            (\<forall>d. Decode c1 = Inr d \<and> spec_opcodeClass (inst d) = 15 \<and>
                  spec_immByte (inst d) = 0x65 \<and> spec_regX (inst d) = spec_regX (inst c) \<longrightarrow>
               (\<exists>c2. Execute_main c1 = Inr c2 \<and> index c2 = index c0 \<and>
                  v c2 ! spec_regX (inst c) = v c0 ! spec_regX (inst c) \<and> v c2 = v c0)))"
proof -
  note f = Decode_fields[OF dec]
  have nz: "inst c \<noteq> 0" using cls by (rule class_15_nonzero)
  have idx': "unat (index c) < length (memory c)" using idx by (simp add: f)
  let ?s = "c\<lparr>memory := (memory c)[unat (index c) := v c ! spec_regX (inst c)], pc := pc c + 2\<rparr>"
  have e1: "Execute c0 = Inr (Execute_timers ?s)"
    using Execute_via_switch[OF dec nz store_switch(1)[OF cls st idx']] .
  have e2: "Execute_main c0 = Inr ?s"
    using Execute_main_via_switch[OF dec nz] store_switch(2)[OF cls st idx'] by simp
  have A: "\<exists>c2. Execute (Execute_timers ?s) = Inr c2 \<and> index c2 = index c0 \<and>
                  v c2 ! spec_regX (inst c) = v c0 ! spec_regX (inst c) \<and> v c2 = v c0"
    if d: "Decode (Execute_timers ?s) = Inr d" and cls': "spec_opcodeClass (inst d) = 15"
      and rd: "spec_immByte (inst d) = 0x65" and x: "spec_regX (inst d) = spec_regX (inst c)" for d
  proof -
    have nz': "inst d \<noteq> 0" using cls' by (rule class_15_nonzero)
    have r: "Execute_switch d = Inr (d\<lparr>pc := pc d + 2\<rparr>)" "v d = v c" "index d = index c"
      using roundtrip_switch(1,3,4)[OF cls st idx' _ _ _ d cls' rd x]
      by (simp_all add: Execute_timers_fields)
    show ?thesis
      using Execute_via_switch[OF d nz' r(1)] r(2,3)
      by (simp add: Execute_timers_fields f)
  qed
  have B: "\<exists>c2. Execute_main ?s = Inr c2 \<and> index c2 = index c0 \<and>
                  v c2 ! spec_regX (inst c) = v c0 ! spec_regX (inst c) \<and> v c2 = v c0"
    if d: "Decode ?s = Inr d" and cls': "spec_opcodeClass (inst d) = 15"
      and rd: "spec_immByte (inst d) = 0x65" and x: "spec_regX (inst d) = spec_regX (inst c)" for d
  proof -
    have nz': "inst d \<noteq> 0" using cls' by (rule class_15_nonzero)
    have r: "Execute_main_switch d = Inr (d\<lparr>pc := pc d + 2\<rparr>)" "v d = v c" "index d = index c"
      using roundtrip_switch(2,3,4)[OF cls st idx' _ _ _ d cls' rd x]
      by simp_all
    show ?thesis
      using Execute_main_via_switch[OF d nz'] r
      by (simp add: f)
  qed
  show ?thesis
    using e1 e2 A B by auto
qed

theorem store_read_roundtrip_witness:
  "Decode ex_store = Inr (ex_store\<lparr>inst := 0xF055\<rparr>) \<and>
   spec_opcodeClass 0xF055 = 15 \<and> spec_immByte 0xF055 = 0x55 \<and>
   unat (index ex_store) < length (memory ex_store) \<and>
   v ex_store ! 0 = 0xAB \<and>
   (\<exists>c1. Execute ex_store = Inr c1 \<and> memory c1 ! 0x00A = 0xAB \<and>
      Decode c1 = Inr (c1\<lparr>inst := 0xF065\<rparr>) \<and>
      spec_opcodeClass 0xF065 = 15 \<and> spec_immByte 0xF065 = 0x65 \<and>
      spec_regX 0xF065 = spec_regX 0xF055 \<and>
      (\<exists>c2. Execute c1 = Inr c2 \<and> v c2 ! spec_regX 0xF055 = 0xAB))"
proof -
  have d1: "Decode ex_store = Inr (ex_store\<lparr>inst := 0xF055\<rparr>)"
    by (simp add: Decode_at ex_store_def loaded_simps)
  have k: "spec_opcodeClass 0xF055 = 15" "spec_immByte 0xF055 = 0x55" "spec_regX 0xF055 = 0"
    "spec_opcodeClass 0xF065 = 15" "spec_immByte 0xF065 = 0x65" "spec_regX 0xF065 = 0"
    by (simp_all add: spec_opcodeClass_def spec_immByte_def spec_regX_def)
  have i1: "unat (index ex_store) < length (memory ex_store)"
    by (simp add: ex_store_def loaded_simps)
  have v0: "v ex_store ! 0 = 0xAB"
    by (simp add: ex_store_def)
  let ?c1 = "ex_store\<lparr>inst := 0xF055, memory := (memory ex_store)[0x00A := 0xAB], pc := 0x202\<rparr>"
  have e1: "Execute ex_store = Inr ?c1"
    using Execute_via_switch[OF d1 _ store_switch(1)] k i1 v0
    by (simp add: Execute_timers_zero ex_store_def loaded_simps)
  have m: "memory ?c1 ! 0x00A = 0xAB"
    by (simp add: ex_store_def loaded_simps)
  have d2: "Decode ?c1 = Inr (?c1\<lparr>inst := 0xF065\<rparr>)"
    by (simp add: Decode_at ex_store_def loaded_simps)
  from store_read_roundtrip[OF d1 _ _ i1] e1 d2 k v0
  have "\<exists>c2. Execute ?c1 = Inr c2 \<and> v c2 ! spec_regX 0xF055 = 0xAB"
    by auto
  with d1 k i1 v0 e1 m d2 show ?thesis
    by simp
qed

section \<open>Timers\<close>

lemma timers_dec:
  "delayTimer (Execute_timers c) = (if delayTimer c = 0 then 0 else delayTimer c - 1)"
  "soundTimer (Execute_timers c) = (if soundTimer c = 0 then 0 else soundTimer c - 1)"
  by (simp_all add: Execute_timers_def Let_def word_greater_zero_iff)

lemma unat_dec: "(t :: u8) \<noteq> 0 \<Longrightarrow> unat (t - 1) = unat t - 1"
  by (simp add: unat_minus_one)

lemma draw_loop_timers:
  "draw_loop x y bound i j c = Inr c' \<Longrightarrow> delayTimer c' = delayTimer c \<and> soundTimer c' = soundTimer c"
proof (induction x y bound i j c rule: draw_loop.induct)
  case (1 x y bound i j c)
  show ?case
  proof (cases "i < bound")
    case True
    with "1.prems" have ok: "unat (64 * x + y + j) < length (gfx c) \<and> unat i < length (memory c)"
      by (subst (asm) draw_loop.simps) (simp split: if_splits)
    with True "1.prems" have
      "draw_loop x y bound (i + 1) (j + 1)
         (c\<lparr>gfx := (gfx c)[unat (64 * x + y + j) := memory c ! unat i]\<rparr>) = Inr c'"
      by (subst (asm) draw_loop.simps) simp
    from "1.IH"[OF True ok this] show ?thesis by simp
  next
    case False
    with "1.prems" show ?thesis
      by (subst (asm) draw_loop.simps) simp
  qed
qed

lemma Math8_timers: "delayTimer (Math8 c) = delayTimer c" "soundTimer (Math8 c) = soundTimer c"
  by (simp_all add: Math8_def Let_def)

lemma top_cases:
  obtains (c0) "topNibble w = 0x0" | (c1) "topNibble w = 0x1" | (c2) "topNibble w = 0x2"
  | (c3) "topNibble w = 0x3" | (c4) "topNibble w = 0x4" | (c5) "topNibble w = 0x5"
  | (c6) "topNibble w = 0x6" | (c7) "topNibble w = 0x7" | (c8) "topNibble w = 0x8"
  | (c9) "topNibble w = 0x9" | (cA) "topNibble w = 0xA" | (cD) "topNibble w = 0xD"
  | (cF) "topNibble w = 0xF"
  | (other) "topNibble w \<noteq> 0x0" "topNibble w \<noteq> 0x1" "topNibble w \<noteq> 0x2" "topNibble w \<noteq> 0x3"
      "topNibble w \<noteq> 0x4" "topNibble w \<noteq> 0x5" "topNibble w \<noteq> 0x6" "topNibble w \<noteq> 0x7"
      "topNibble w \<noteq> 0x8" "topNibble w \<noteq> 0x9" "topNibble w \<noteq> 0xA" "topNibble w \<noteq> 0xD"
      "topNibble w \<noteq> 0xF"
  by blast

lemmas step_defs = Let_def GetImm_1 GetImm_2 IncPC_def SetPC_def SetIndex_def

lemma switch_timers:
  assumes "Execute_switch c = Inr c'"
  shows "delayTimer c' = delayTimer c \<and> soundTimer c' = soundTimer c"
proof (cases "inst c" rule: top_cases)
  case cD
  with assms show ?thesis
    by (auto simp: Execute_switch_def step_defs dest: draw_loop_timers split: sum.splits)
next
  case c8
  with assms show ?thesis
    by (auto simp: Execute_switch_def step_defs Math8_timers)
next
  case cF
  with assms show ?thesis
    by (auto simp: Execute_switch_def step_defs split: if_splits)
qed (use assms in \<open>auto simp: Execute_switch_def step_defs split: if_splits\<close>)

lemma main_switch_timers:
  assumes "Execute_main_switch c = Inr c'"
  shows "delayTimer c' = delayTimer c \<and> soundTimer c' = soundTimer c"
proof (cases "inst c" rule: top_cases)
  case c8
  with assms show ?thesis
    by (auto simp: Execute_main_switch_def step_defs Math8_timers)
next
  case cF
  with assms show ?thesis
    by (auto simp: Execute_main_switch_def step_defs split: if_splits)
qed (use assms in \<open>auto simp: Execute_main_switch_def step_defs split: if_splits\<close>)

lemma setindex_switch:
  assumes "topNibble (inst c) = 0xA"
  shows "Execute_switch c = Inr (c\<lparr>index := inst c AND 0x0FFF, pc := pc c + 2\<rparr>)"
    and "Execute_main_switch c = Inr (c\<lparr>index := inst c AND 0x0FFF, pc := pc c + 2\<rparr>)"
  using assms by (simp_all add: Execute_switch_def Execute_main_switch_def step_defs)

text \<open>
  The tail of \<^verbatim>\<open>Execute\<close> on an arbitrary state of the struct: a cycle that fetches the
  word 0 returns before the tail; every other cycle that completes takes one off each
  timer that is not zero and leaves a zero timer at zero.  The earlier revision has no
  such tail.
\<close>

lemma timers_tail:
  assumes dec: "Decode c0 = Inr c"
  shows "(inst c = 0 \<longrightarrow> Execute c0 = Inr c \<and>
            delayTimer c = delayTimer c0 \<and> soundTimer c = soundTimer c0) \<and>
         (\<forall>c'. inst c \<noteq> 0 \<and> Execute c0 = Inr c' \<longrightarrow>
            unat (delayTimer c') = (if delayTimer c0 = 0 then 0 else unat (delayTimer c0) - 1) \<and>
            unat (soundTimer c') = (if soundTimer c0 = 0 then 0 else unat (soundTimer c0) - 1)) \<and>
         (\<forall>c'. Execute_main c0 = Inr c' \<longrightarrow>
            delayTimer c' = delayTimer c0 \<and> soundTimer c' = soundTimer c0)"
proof (intro conjI allI impI)
  note f = Decode_fields[OF dec]
  {
    assume "inst c = 0"
    then show "Execute c0 = Inr c" by (simp add: Execute_def dec)
    show "delayTimer c = delayTimer c0" "soundTimer c = soundTimer c0" by (simp_all add: f)
  }
  {
    fix c' assume a: "inst c \<noteq> 0 \<and> Execute c0 = Inr c'"
    then obtain c1 where s: "Execute_switch c = Inr c1" and c': "c' = Execute_timers c1"
      by (auto simp: Execute_def dec split: sum.splits)
    from switch_timers[OF s] have "delayTimer c1 = delayTimer c0" "soundTimer c1 = soundTimer c0"
      by (simp_all add: f)
    then show "unat (delayTimer c') = (if delayTimer c0 = 0 then 0 else unat (delayTimer c0) - 1)"
      and "unat (soundTimer c') = (if soundTimer c0 = 0 then 0 else unat (soundTimer c0) - 1)"
      by (simp_all add: c' timers_dec unat_dec)
  }
  {
    fix c' assume a: "Execute_main c0 = Inr c'"
    then have "Execute_main_switch c = Inr c'"
      by (auto simp: Execute_main_def dec split: if_splits)
    from main_switch_timers[OF this]
    show "delayTimer c' = delayTimer c0" "soundTimer c' = soundTimer c0"
      by (simp_all add: f)
  }
qed

section \<open>Call and return\<close>

lemma targetAddr_address: "targetAddr w = of_nat (spec_address w)"
  by (simp flip: unat_targetAddr)

lemma class_2_nonzero: "spec_opcodeClass w = 2 \<Longrightarrow> w \<noteq> 0"
  by (auto simp: spec_opcodeClass_def)

lemma call_switch:
  assumes "spec_opcodeClass (inst c) = 2"
  shows "Execute_switch c = Inr (c\<lparr>pc := targetAddr (inst c)\<rparr>)"
    and "Execute_main_switch c = Inr (c\<lparr>pc := targetAddr (inst c)\<rparr>)"
  using assms by (simp_all add: Execute_switch_def Execute_main_switch_def step_defs topNibble_class)

lemma ret_switch:
  assumes "inst d = 0x00EE"
  shows "Execute_switch d = Inr (d\<lparr>pc := pc d + 2\<rparr>)"
    and "Execute_main_switch d = Inr (d\<lparr>pc := pc d + 2\<rparr>)"
  using assms
  by (simp_all add: Execute_switch_def Execute_main_switch_def step_defs topNibble_def bottomNibble_def)

lemma Decode_ex_call: "Decode ex_call = Inr (ex_call\<lparr>inst := 0x2204\<rparr>)"
  by (simp add: Decode_at ex_call_def loaded_simps)

lemma Decode_ex_call_ret:
  "Decode (ex_call\<lparr>inst := 0x2204, pc := 0x204\<rparr>) = Inr (ex_call\<lparr>inst := 0x00EE, pc := 0x204\<rparr>)"
  by (simp add: Decode_at ex_call_def loaded_simps)

lemma Execute_ex_call: "Execute ex_call = Inr (ex_call\<lparr>inst := 0x2204, pc := 0x204\<rparr>)"
proof -
  have k: "spec_opcodeClass 0x2204 = 2" by (simp add: spec_opcodeClass_def)
  show ?thesis
    using Execute_via_switch[OF Decode_ex_call _ call_switch(1)] k
    by (simp add: Execute_timers_zero targetAddr_def ex_call_def loaded_simps)
qed

lemma Execute_ex_call_ret:
  "Execute (ex_call\<lparr>inst := 0x2204, pc := 0x204\<rparr>) = Inr (ex_call\<lparr>inst := 0x00EE, pc := 0x206\<rparr>)"
  using Execute_via_switch[OF Decode_ex_call_ret _ ret_switch(1)]
  by (simp add: Execute_timers_zero ex_call_def loaded_simps)

text \<open>
  Claim C2 says that a call pushes the program counter and increments the stack pointer,
  so that the matching return comes back behind the call.  The program
  \<open>0x200: 2204; 0x204: 00EE\<close> shows otherwise: after the call the stack is still all
  zero and the stack pointer is unchanged, and after the return the program counter is
  \<open>0x206\<close>, not \<open>0x202\<close>.
\<close>

theorem call_return_counterexample:
  "Execute ex_call = Inr (ex_call\<lparr>inst := 0x2204, pc := 0x204\<rparr>) \<and>
   stack (ex_call\<lparr>inst := 0x2204, pc := 0x204\<rparr>) = replicate 16 0 \<and>
   sp (ex_call\<lparr>inst := 0x2204, pc := 0x204\<rparr>) = sp ex_call \<and>
   Execute (ex_call\<lparr>inst := 0x2204, pc := 0x204\<rparr>) = Inr (ex_call\<lparr>inst := 0x00EE, pc := 0x206\<rparr>) \<and>
   pc ex_call = 0x200 \<and>
   pc (ex_call\<lparr>inst := 0x00EE, pc := 0x206\<rparr>) \<noteq> pc ex_call + 2"
  using Execute_ex_call Execute_ex_call_ret by (simp add: ex_call_def loaded_simps)

text \<open>
  Claim C2, amended.  A call (class 2) sets the program counter to the 12-bit address and
  touches neither the stack nor the stack pointer; the return \<open>0x00EE\<close> only advances the
  program counter by 2.  So a call followed at once by the return at its target leaves
  the program counter at the call's address plus 2, and the stack pointer, the stack, the
  registers, the memory and the display as they were before the call; in both revisions.
\<close>

theorem call_return:
  assumes dec: "Decode c0 = Inr c"
    and cls: "spec_opcodeClass (inst c) = 2"
  shows "(\<exists>c1. Execute c0 = Inr c1 \<and> unat (pc c1) = spec_address (inst c) \<and>
            data_unchanged c0 c1 \<and>
            (\<forall>d. Decode c1 = Inr d \<and> inst d = 0x00EE \<longrightarrow>
               (\<exists>c2. Execute c1 = Inr c2 \<and> pc c2 = pc c1 + 2 \<and> data_unchanged c0 c2))) \<and>
         (\<exists>c1. Execute_main c0 = Inr c1 \<and> unat (pc c1) = spec_address (inst c) \<and>
            data_unchanged c0 c1 \<and>
            (\<forall>d. Decode c1 = Inr d \<and> inst d = 0x00EE \<longrightarrow>
               (\<exists>c2. Execute_main c1 = Inr c2 \<and> pc c2 = pc c1 + 2 \<and> data_unchanged c0 c2)))"
proof -
  note f = Decode_fields[OF dec]
  have nz: "inst c \<noteq> 0" using cls by (rule class_2_nonzero)
  let ?s = "c\<lparr>pc := targetAddr (inst c)\<rparr>"
  have e1: "Execute c0 = Inr (Execute_timers ?s)"
    using Execute_via_switch[OF dec nz call_switch(1)[OF cls]] .
  have e2: "Execute_main c0 = Inr ?s"
    using Execute_main_via_switch[OF dec nz] call_switch(2)[OF cls] by simp
  have A: "\<exists>c2. Execute (Execute_timers ?s) = Inr c2 \<and> pc c2 = pc (Execute_timers ?s) + 2 \<and>
             data_unchanged c0 c2"
    if d: "Decode (Execute_timers ?s) = Inr d" and r: "inst d = 0x00EE" for d
  proof -
    have nz': "inst d \<noteq> 0" using r by simp
    note g = Decode_fields[OF d]
    show ?thesis
      using Execute_via_switch[OF d nz' ret_switch(1)[OF r]]
      by (simp add: Execute_timers_fields g f data_unchanged_def)
  qed
  have B: "\<exists>c2. Execute_main ?s = Inr c2 \<and> pc c2 = pc ?s + 2 \<and> data_unchanged c0 c2"
    if d: "Decode ?s = Inr d" and r: "inst d = 0x00EE" for d
  proof -
    have nz': "inst d \<noteq> 0" using r by simp
    note g = Decode_fields[OF d]
    show ?thesis
      using Execute_main_via_switch[OF d nz'] ret_switch(2)[OF r]
      by (simp add: g f data_unchanged_def)
  qed
  have p: "unat (pc (Execute_timers ?s)) = spec_address (inst c)" "unat (pc ?s) = spec_address (inst c)"
    by (simp_all add: Execute_timers_fields unat_targetAddr)
  have u: "data_unchanged c0 (Execute_timers ?s)" "data_unchanged c0 ?s"
    by (simp_all add: Execute_timers_fields f data_unchanged_def)
  show ?thesis
    using e1 e2 A B p u by auto
qed

theorem call_return_witness:
  "Decode ex_call = Inr (ex_call\<lparr>inst := 0x2204\<rparr>) \<and> spec_opcodeClass 0x2204 = 2 \<and>
   spec_address 0x2204 = 0x204 \<and>
   (\<exists>c1. Execute ex_call = Inr c1 \<and> unat (pc c1) = 0x204 \<and> sp c1 = sp ex_call \<and>
      stack c1 = stack ex_call \<and>
      (\<exists>d. Decode c1 = Inr d \<and> inst d = 0x00EE) \<and>
      (\<exists>c2. Execute c1 = Inr c2 \<and> pc c2 = 0x206 \<and> sp c2 = sp ex_call \<and> stack c2 = stack ex_call))"
proof -
  have k: "spec_opcodeClass 0x2204 = 2" "spec_address 0x2204 = 0x204"
    by (simp_all add: spec_opcodeClass_def spec_address_def)
  have d2: "\<exists>d. Decode (ex_call\<lparr>inst := 0x2204, pc := 0x204\<rparr>) = Inr d \<and> inst d = 0x00EE"
    using Decode_ex_call_ret by simp
  from call_return[OF Decode_ex_call] k Execute_ex_call d2
  have "\<exists>c2. Execute (ex_call\<lparr>inst := 0x2204, pc := 0x204\<rparr>) = Inr c2 \<and> pc c2 = 0x206 \<and>
          data_unchanged ex_call c2"
    by auto
  with Decode_ex_call k Execute_ex_call d2 show ?thesis
    by (auto simp: data_unchanged_def)
qed

section \<open>Arithmetic and shifts\<close>

lemma not_255_less: "\<not> (255 :: u8) < a"
proof -
  have "unat a < 256" using unsigned_less[of a, where 'a=nat] by simp
  then show ?thesis by (simp add: word_less_nat_alt)
qed

lemma class_8_nonzero: "spec_opcodeClass w = 8 \<Longrightarrow> w \<noteq> 0"
  by (auto simp: spec_opcodeClass_def)

lemma Math8_add:
  assumes "spec_immNibble (inst c) = 4"
  shows "Math8 c = c\<lparr>v := (v c)[spec_regX (inst c) := v c ! spec_regX (inst c) + v c ! spec_regY (inst c)]\<rparr>"
  using assms
  by (simp add: Math8_def Let_def bottomNibble_imm unat_GetXReg unat_GetYReg not_255_less and_255_u8)

lemma Math8_shr:
  assumes "spec_immNibble (inst c) = 6"
  shows "Math8 c = c\<lparr>v := (v c)[spec_regX (inst c) := drop_bit 1 (v c ! spec_regX (inst c))]\<rparr>"
  using assms
  by (simp add: Math8_def Let_def bottomNibble_imm unat_GetXReg unat_GetYReg)

lemma Math8_shl:
  assumes "spec_immNibble (inst c) = 14"
  shows "Math8 c = c\<lparr>v := (v c)[spec_regX (inst c) := push_bit 1 (v c ! spec_regX (inst c))]\<rparr>"
  using assms
  by (simp add: Math8_def Let_def bottomNibble_imm unat_GetXReg unat_GetYReg)

lemma math_switch:
  assumes "spec_opcodeClass (inst c) = 8"
  shows "Execute_switch c = Inr (IncPC (Math8 c))"
    and "Execute_main_switch c = Inr (IncPC (Math8 c))"
  using assms by (simp_all add: Execute_switch_def Execute_main_switch_def step_defs topNibble_class)

lemma unat_shr1: "unat (drop_bit 1 (a :: u8)) = unat a div 2"
  by (simp add: drop_bit_eq_div unat_div)

lemma unat_shl1: "unat (push_bit 1 (a :: u8)) = (2 * unat a) mod 256"
  by (simp add: push_bit_eq_mult unat_word_ariths mult.commute)

lemma unat_add_u8: "unat ((a :: u8) + b) = (unat a + unat b) mod 256"
  by (simp add: unat_word_ariths)

lemma load_switch:
  assumes "topNibble (inst c) = 0x6"
  shows "Execute_switch c = Inr (c\<lparr>v := (v c)[unat (GetXReg c) := ucast (inst c AND 0x00FF)], pc := pc c + 2\<rparr>)"
    and "Execute_main_switch c = Inr (c\<lparr>v := (v c)[unat (GetXReg c) := ucast (inst c AND 0x00FF)], pc := pc c + 2\<rparr>)"
  using assms by (simp_all add: Execute_switch_def Execute_main_switch_def step_defs)

lemma replicate_16: "replicate 16 x = x # x # replicate 14 x"
  by (simp add: numeral_eq_Suc)

lemma Execute_step:
  assumes "Decode c0 = Inr c" and "inst c \<noteq> 0" and "Execute_switch c = Inr c1"
    and "delayTimer c1 = 0" and "soundTimer c1 = 0"
  shows "Execute c0 = Inr c1"
  using assms by (simp add: Execute_def Execute_timers_zero)

lemma cycles_2: "Execute c = Inr c1 \<Longrightarrow> Execute c1 = Inr c2 \<Longrightarrow> cycles 2 c = Inr c2"
  by (simp add: numeral_2_eq_2)

lemma cycles_3:
  "Execute c = Inr c1 \<Longrightarrow> Execute c1 = Inr c2 \<Longrightarrow> Execute c2 = Inr c3 \<Longrightarrow> cycles 3 c = Inr c3"
  by (simp add: numeral_3_eq_3)

lemma add_step1:
  "Execute (loaded prog_add) =
     Inr ((loaded prog_add)\<lparr>inst := 0x60C8, v := 0xC8 # 0 # replicate 14 0, pc := 0x202\<rparr>)"
proof -
  have d: "Decode (loaded prog_add) = Inr ((loaded prog_add)\<lparr>inst := 0x60C8\<rparr>)"
    by (simp add: Decode_at prog_add_def loaded_simps)
  have s: "Execute_switch ((loaded prog_add)\<lparr>inst := 0x60C8\<rparr>) =
      Inr ((loaded prog_add)\<lparr>inst := 0x60C8, v := 0xC8 # 0 # replicate 14 0, pc := 0x202\<rparr>)"
    by (subst load_switch(1)) (simp_all add: topNibble_def GetXReg_def loaded_simps replicate_16)
  show ?thesis
    by (rule Execute_step[OF d _ s]) (simp_all add: loaded_simps)
qed

lemma add_step2:
  "Execute ((loaded prog_add)\<lparr>inst := 0x60C8, v := 0xC8 # 0 # replicate 14 0, pc := 0x202\<rparr>) =
     Inr ((loaded prog_add)\<lparr>inst := 0x6164, v := 0xC8 # 0x64 # replicate 14 0, pc := 0x204\<rparr>)"
  (is "Execute ?a = Inr ?b")
proof -
  have d: "Decode ?a = Inr (?a\<lparr>inst := 0x6164\<rparr>)"
    by (simp add: Decode_at prog_add_def loaded_simps)
  have s: "Execute_switch (?a\<lparr>inst := 0x6164\<rparr>) = Inr ?b"
    by (subst load_switch(1)) (simp_all add: topNibble_def GetXReg_def loaded_simps replicate_16)
  show ?thesis
    by (rule Execute_step[OF d _ s]) (simp_all add: loaded_simps)
qed

lemma add_step3:
  "Execute ((loaded prog_add)\<lparr>inst := 0x6164, v := 0xC8 # 0x64 # replicate 14 0, pc := 0x204\<rparr>) =
     Inr ((loaded prog_add)\<lparr>inst := 0x8014, v := 0x2C # 0x64 # replicate 14 0, pc := 0x206\<rparr>)"
  (is "Execute ?a = Inr ?b")
proof -
  have d: "Decode ?a = Inr (?a\<lparr>inst := 0x8014\<rparr>)"
    by (simp add: Decode_at prog_add_def loaded_simps)
  have k: "spec_opcodeClass 0x8014 = 8" "spec_immNibble 0x8014 = 4" "spec_regX 0x8014 = 0" "spec_regY 0x8014 = 1"
    by (simp_all add: spec_opcodeClass_def spec_immNibble_def spec_regX_def spec_regY_def)
  have s: "Execute_switch (?a\<lparr>inst := 0x8014\<rparr>) = Inr ?b"
    by (subst math_switch(1)) (simp_all add: k Math8_add IncPC_def)
  show ?thesis
    by (rule Execute_step[OF d _ s]) (simp_all add: loaded_simps)
qed

text \<open>
  Claim C3 on the program \<open>6 0 C8; 6 1 64; 8 0 1 4\<close> (\<open>v0 := 200\<close>, \<open>v1 := 100\<close>,
  \<open>v0 := v0 + v1\<close>): after three cycles \<open>v0\<close> holds \<open>300 mod 256 = 44\<close>, as the claim
  says, but \<open>vF\<close> is still 0 although the sum exceeds 255.  The test \<^verbatim>\<open>add > 255\<close> of
  \<^verbatim>\<open>Math8\<close> is made on the \<^verbatim>\<open>uint8\<close> sum and never holds (lemma \<open>not_255_less\<close>), and no
  branch writes 0: by \<open>alu_add_effect\<close> below the opcode never changes \<open>vF\<close> unless \<open>x\<close> is
  15 itself.
\<close>

theorem alu_add_carry_lost:
  "NewChip prog_add = Inr (loaded prog_add) \<and>
   cycles 3 (loaded prog_add) =
     Inr ((loaded prog_add)\<lparr>inst := 0x8014, v := 0x2C # 0x64 # replicate 14 0, pc := 0x206\<rparr>) \<and>
   ((0x2C :: u8) # 0x64 # replicate 14 0) ! 0xF = 0 \<and>
   ((0x2C :: u8) # 0x64 # replicate 14 0) ! 0 = 0x2C \<and>
   unat (0xC8 :: u8) + unat (0x64 :: u8) > 255"
proof -
  have "NewChip prog_add = Inr (loaded prog_add)"
    by (rule NewChip_loaded) (simp_all add: prog_add_def)
  moreover note cycles_3[OF add_step1 add_step2 add_step3]
  ultimately show ?thesis by simp
qed

lemma Execute_math:
  assumes dec: "Decode c0 = Inr c" and cls: "spec_opcodeClass (inst c) = 8"
  shows "Execute c0 = Inr (Execute_timers (IncPC (Math8 c)))"
    and "Execute_main c0 = Inr (IncPC (Math8 c))"
proof -
  have nz: "inst c \<noteq> 0" using cls by (rule class_8_nonzero)
  show "Execute c0 = Inr (Execute_timers (IncPC (Math8 c)))"
    using Execute_via_switch[OF dec nz math_switch(1)[OF cls]] .
  show "Execute_main c0 = Inr (IncPC (Math8 c))"
    using Execute_main_via_switch[OF dec nz] math_switch(2)[OF cls] by simp
qed

lemma alu_add_effect:
  assumes dec: "Decode c0 = Inr c"
    and cls: "spec_opcodeClass (inst c) = 8"
    and sub: "spec_immNibble (inst c) = 4"
    and wf: "well_formed c0"
  shows "\<exists>c'. Execute c0 = Inr c' \<and>
           v c' = (v c0)[spec_regX (inst c) := v c0 ! spec_regX (inst c) + v c0 ! spec_regY (inst c)] \<and>
           unat (v c' ! spec_regX (inst c)) =
             (unat (v c0 ! spec_regX (inst c)) + unat (v c0 ! spec_regY (inst c))) mod 256 \<and>
           (spec_regX (inst c) \<noteq> 15 \<longrightarrow> v c' ! 15 = v c0 ! 15)"
    and "\<exists>c'. Execute_main c0 = Inr c' \<and>
           v c' = (v c0)[spec_regX (inst c) := v c0 ! spec_regX (inst c) + v c0 ! spec_regY (inst c)] \<and>
           unat (v c' ! spec_regX (inst c)) =
             (unat (v c0 ! spec_regX (inst c)) + unat (v c0 ! spec_regY (inst c))) mod 256 \<and>
           (spec_regX (inst c) \<noteq> 15 \<longrightarrow> v c' ! 15 = v c0 ! 15)"
proof -
  note f = Decode_fields[OF dec]
  have x: "spec_regX (inst c) < length (v c0)"
    using wf regX_lt[of "inst c"] by (simp add: well_formed_def)
  show "\<exists>c'. Execute c0 = Inr c' \<and>
           v c' = (v c0)[spec_regX (inst c) := v c0 ! spec_regX (inst c) + v c0 ! spec_regY (inst c)] \<and>
           unat (v c' ! spec_regX (inst c)) =
             (unat (v c0 ! spec_regX (inst c)) + unat (v c0 ! spec_regY (inst c))) mod 256 \<and>
           (spec_regX (inst c) \<noteq> 15 \<longrightarrow> v c' ! 15 = v c0 ! 15)"
    using x
    by (simp add: Execute_math[OF dec cls] Math8_add[OF sub] IncPC_def Execute_timers_fields f unat_add_u8)
  show "\<exists>c'. Execute_main c0 = Inr c' \<and>
           v c' = (v c0)[spec_regX (inst c) := v c0 ! spec_regX (inst c) + v c0 ! spec_regY (inst c)] \<and>
           unat (v c' ! spec_regX (inst c)) =
             (unat (v c0 ! spec_regX (inst c)) + unat (v c0 ! spec_regY (inst c))) mod 256 \<and>
           (spec_regX (inst c) \<noteq> 15 \<longrightarrow> v c' ! 15 = v c0 ! 15)"
    using x
    by (simp add: Execute_math[OF dec cls] Math8_add[OF sub] IncPC_def f unat_add_u8)
qed

lemma shr_step1: "Execute (loaded prog_shr) = Inr ex_shr"
proof -
  have d: "Decode (loaded prog_shr) = Inr ((loaded prog_shr)\<lparr>inst := 0x6001\<rparr>)"
    by (simp add: Decode_at prog_shr_def loaded_simps)
  have s: "Execute_switch ((loaded prog_shr)\<lparr>inst := 0x6001\<rparr>) = Inr ex_shr"
    by (subst load_switch(1)) (simp_all add: topNibble_def GetXReg_def loaded_simps replicate_16 ex_shr_def)
  show ?thesis
    by (rule Execute_step[OF d _ s]) (simp_all add: loaded_simps ex_shr_def)
qed

lemma shl_step1: "Execute (loaded prog_shl) = Inr ex_shl"
proof -
  have d: "Decode (loaded prog_shl) = Inr ((loaded prog_shl)\<lparr>inst := 0x6080\<rparr>)"
    by (simp add: Decode_at prog_shl_def loaded_simps)
  have s: "Execute_switch ((loaded prog_shl)\<lparr>inst := 0x6080\<rparr>) = Inr ex_shl"
    by (subst load_switch(1)) (simp_all add: topNibble_def GetXReg_def loaded_simps replicate_16 ex_shl_def)
  show ?thesis
    by (rule Execute_step[OF d _ s]) (simp_all add: loaded_simps ex_shl_def)
qed

lemma Decode_ex_shr: "Decode ex_shr = Inr (ex_shr\<lparr>inst := 0x8006\<rparr>)"
  by (simp add: Decode_at prog_shr_def ex_shr_def loaded_simps)

lemma Decode_ex_shl: "Decode ex_shl = Inr (ex_shl\<lparr>inst := 0x800E\<rparr>)"
  by (simp add: Decode_at prog_shl_def ex_shl_def loaded_simps)

lemma shift_fields:
  "spec_opcodeClass 0x8006 = 8" "spec_immNibble 0x8006 = 6" "spec_regX 0x8006 = 0"
  "spec_opcodeClass 0x800E = 8" "spec_immNibble 0x800E = 14" "spec_regX 0x800E = 0"
  by (simp_all add: spec_opcodeClass_def spec_immNibble_def spec_regX_def)

lemma shr_step2:
  "Execute ex_shr = Inr (ex_shr\<lparr>inst := 0x8006, v := 0 # 0 # replicate 14 0, pc := 0x204\<rparr>)"
proof -
  have s: "Execute_switch (ex_shr\<lparr>inst := 0x8006\<rparr>) =
             Inr (ex_shr\<lparr>inst := 0x8006, v := 0 # 0 # replicate 14 0, pc := 0x204\<rparr>)"
    by (subst math_switch(1)) (simp_all add: shift_fields Math8_shr IncPC_def ex_shr_def)
  show ?thesis
    by (rule Execute_step[OF Decode_ex_shr _ s]) (simp_all add: loaded_simps ex_shr_def)
qed

lemma shl_step2:
  "Execute ex_shl = Inr (ex_shl\<lparr>inst := 0x800E, v := 0 # 0 # replicate 14 0, pc := 0x204\<rparr>)"
proof -
  have s: "Execute_switch (ex_shl\<lparr>inst := 0x800E\<rparr>) =
             Inr (ex_shl\<lparr>inst := 0x800E, v := 0 # 0 # replicate 14 0, pc := 0x204\<rparr>)"
    by (subst math_switch(1)) (simp_all add: shift_fields Math8_shl IncPC_def ex_shl_def)
  show ?thesis
    by (rule Execute_step[OF Decode_ex_shl _ s]) (simp_all add: loaded_simps ex_shl_def)
qed

text \<open>
  Claim C4 says that the shifts put the bit shifted out into \<open>vF\<close>.  On \<open>v0 = 1\<close> the
  right shift \<open>0x8006\<close> loses the low bit 1 and on \<open>v0 = 0x80\<close> the left shift \<open>0x800E\<close>
  loses the high bit 1; in both runs \<open>vF\<close> is 0 before and after.
\<close>

theorem alu_shift_flag_counterexample:
  "Execute (loaded prog_shr) = Inr ex_shr \<and> v ex_shr ! 0 = 1 \<and> v ex_shr ! 0xF = 0 \<and>
   Execute ex_shr = Inr (ex_shr\<lparr>inst := 0x8006, v := 0 # 0 # replicate 14 0, pc := 0x204\<rparr>) \<and>
   v (ex_shr\<lparr>inst := 0x8006, v := 0 # 0 # replicate 14 0, pc := 0x204\<rparr>) ! 0xF = 0 \<and>
   Execute (loaded prog_shl) = Inr ex_shl \<and> v ex_shl ! 0 = 0x80 \<and> v ex_shl ! 0xF = 0 \<and>
   Execute ex_shl = Inr (ex_shl\<lparr>inst := 0x800E, v := 0 # 0 # replicate 14 0, pc := 0x204\<rparr>) \<and>
   v (ex_shl\<lparr>inst := 0x800E, v := 0 # 0 # replicate 14 0, pc := 0x204\<rparr>) ! 0xF = 0"
  using shr_step1 shr_step2 shl_step1 shl_step2
  by (simp add: ex_shr_def ex_shl_def)

lemma unat_shr1': "unat (drop_bit (Suc 0) (a :: u8)) = unat a div 2"
  using unat_shr1[of a] by simp

lemma unat_shl1': "unat ((a :: u8) * 2) = (2 * unat a) mod 256"
  using unat_shl1[of a] by (simp add: push_bit_eq_mult)

text \<open>
  Claim C4, amended.  The opcode \<open>0x8xy6\<close> sets \<open>v[x]\<close> to \<open>v[x] >> 1\<close> and \<open>0x8xyE\<close> sets it to
  \<open>(v[x] << 1) mod 256\<close>; the new value depends on \<open>v[x]\<close> alone, not on \<open>v[y]\<close>.  No other
  register changes: the bit shifted out is not captured, and \<open>vF\<close> keeps its value unless
  \<open>x\<close> is 15 itself.  In both revisions.
\<close>

theorem alu_shift:
  assumes dec: "Decode c0 = Inr c"
    and cls: "spec_opcodeClass (inst c) = 8"
    and wf: "well_formed c0"
  shows "(spec_immNibble (inst c) = 6 \<longrightarrow>
            (\<exists>c'. Execute c0 = Inr c' \<and>
               v c' = (v c0)[spec_regX (inst c) := drop_bit 1 (v c0 ! spec_regX (inst c))] \<and>
               unat (v c' ! spec_regX (inst c)) = unat (v c0 ! spec_regX (inst c)) div 2 \<and>
               (spec_regX (inst c) \<noteq> 15 \<longrightarrow> v c' ! 15 = v c0 ! 15)) \<and>
            (\<exists>c'. Execute_main c0 = Inr c' \<and>
               v c' = (v c0)[spec_regX (inst c) := drop_bit 1 (v c0 ! spec_regX (inst c))] \<and>
               unat (v c' ! spec_regX (inst c)) = unat (v c0 ! spec_regX (inst c)) div 2 \<and>
               (spec_regX (inst c) \<noteq> 15 \<longrightarrow> v c' ! 15 = v c0 ! 15))) \<and>
         (spec_immNibble (inst c) = 14 \<longrightarrow>
            (\<exists>c'. Execute c0 = Inr c' \<and>
               v c' = (v c0)[spec_regX (inst c) := push_bit 1 (v c0 ! spec_regX (inst c))] \<and>
               unat (v c' ! spec_regX (inst c)) = (2 * unat (v c0 ! spec_regX (inst c))) mod 256 \<and>
               (spec_regX (inst c) \<noteq> 15 \<longrightarrow> v c' ! 15 = v c0 ! 15)) \<and>
            (\<exists>c'. Execute_main c0 = Inr c' \<and>
               v c' = (v c0)[spec_regX (inst c) := push_bit 1 (v c0 ! spec_regX (inst c))] \<and>
               unat (v c' ! spec_regX (inst c)) = (2 * unat (v c0 ! spec_regX (inst c))) mod 256 \<and>
               (spec_regX (inst c) \<noteq> 15 \<longrightarrow> v c' ! 15 = v c0 ! 15)))"
proof -
  note f = Decode_fields[OF dec]
  have x: "spec_regX (inst c) < length (v c0)"
    using wf regX_lt[of "inst c"] by (simp add: well_formed_def)
  show ?thesis
    using x
    by (auto simp: Execute_math[OF dec cls] Math8_shr Math8_shl IncPC_def Execute_timers_fields f
          unat_shr1' unat_shl1')
qed

theorem alu_shift_witness:
  "Decode ex_shr = Inr (ex_shr\<lparr>inst := 0x8006\<rparr>) \<and> spec_opcodeClass 0x8006 = 8 \<and>
   spec_immNibble 0x8006 = 6 \<and> spec_regX 0x8006 = 0 \<and> well_formed ex_shr \<and>
   (\<exists>c'. Execute ex_shr = Inr c' \<and> unat (v c' ! 0) = unat (v ex_shr ! 0) div 2 \<and>
      v c' ! 15 = v ex_shr ! 15) \<and>
   Decode ex_shl = Inr (ex_shl\<lparr>inst := 0x800E\<rparr>) \<and> spec_opcodeClass 0x800E = 8 \<and>
   spec_immNibble 0x800E = 14 \<and> spec_regX 0x800E = 0 \<and> well_formed ex_shl \<and>
   (\<exists>c'. Execute ex_shl = Inr c' \<and> unat (v c' ! 0) = (2 * unat (v ex_shl ! 0)) mod 256 \<and>
      v c' ! 15 = v ex_shl ! 15)"
proof -
  have w: "well_formed ex_shr" "well_formed ex_shl"
    by (simp_all add: well_formed_def ex_shr_def ex_shl_def loaded_simps)
  show ?thesis
    using alu_shift[OF Decode_ex_shr _ w(1)] alu_shift[OF Decode_ex_shl _ w(2)]
      Decode_ex_shr Decode_ex_shl w
    by (simp add: shift_fields) blast
qed

section \<open>Unknown opcodes\<close>

lemma stall_switch:
  assumes "spec_opcodeClass (inst c) = 11 \<or> spec_opcodeClass (inst c) = 12
           \<or> spec_opcodeClass (inst c) = 14
           \<or> (spec_opcodeClass (inst c) = 15 \<and> spec_immByte (inst c) \<noteq> 0x55
               \<and> spec_immByte (inst c) \<noteq> 0x65)"
  shows "Execute_switch c = Inr c" and "Execute_main_switch c = Inr c"
proof -
  from assms consider (B) "topNibble (inst c) = 0xB" | (C) "topNibble (inst c) = 0xC"
    | (E) "topNibble (inst c) = 0xE"
    | (F) "topNibble (inst c) = 0xF" "bottomByte (inst c) \<noteq> 0x55" "bottomByte (inst c) \<noteq> 0x65"
  proof (elim disjE conjE)
    assume "spec_opcodeClass (inst c) = 11"
    then have "topNibble (inst c) = 0xB" by (simp add: topNibble_class)
    then show ?thesis by (rule that(1))
  next
    assume "spec_opcodeClass (inst c) = 12"
    then have "topNibble (inst c) = 0xC" by (simp add: topNibble_class)
    then show ?thesis by (rule that(2))
  next
    assume "spec_opcodeClass (inst c) = 14"
    then have "topNibble (inst c) = 0xE" by (simp add: topNibble_class)
    then show ?thesis by (rule that(3))
  next
    assume a: "spec_opcodeClass (inst c) = 15" "spec_immByte (inst c) \<noteq> 0x55"
      "spec_immByte (inst c) \<noteq> 0x65"
    have t: "topNibble (inst c) = 0xF" using a(1) by (simp add: topNibble_class)
    have "unat (bottomByte (inst c)) \<noteq> 0x55" "unat (bottomByte (inst c)) \<noteq> 0x65"
      using a(2,3) by (simp_all add: unat_bottomByte)
    then have "bottomByte (inst c) \<noteq> 0x55" "bottomByte (inst c) \<noteq> 0x65"
      by auto
    with t show ?thesis by (rule that(4))
  qed
  then have "Execute_switch c = Inr c \<and> Execute_main_switch c = Inr c"
  proof cases
    case B then show ?thesis by (simp add: Execute_switch_def Execute_main_switch_def)
  next
    case C then show ?thesis by (simp add: Execute_switch_def Execute_main_switch_def)
  next
    case E then show ?thesis by (simp add: Execute_switch_def Execute_main_switch_def)
  next
    case F then show ?thesis by (simp add: Execute_switch_def Execute_main_switch_def)
  qed
  then show "Execute_switch c = Inr c" and "Execute_main_switch c = Inr c"
    by simp_all
qed

lemma stall_main_switch_D:
  assumes "spec_opcodeClass (inst c) = 13"
  shows "Execute_main_switch c = Inr c"
  using assms by (simp add: Execute_main_switch_def step_defs topNibble_class)

lemma unknown_class_stall:
  assumes dec: "Decode c0 = Inr c"
    and cls: "spec_opcodeClass (inst c) = 11 \<or> spec_opcodeClass (inst c) = 12
           \<or> spec_opcodeClass (inst c) = 14
           \<or> (spec_opcodeClass (inst c) = 15 \<and> spec_immByte (inst c) \<noteq> 0x55
               \<and> spec_immByte (inst c) \<noteq> 0x65)"
  shows "Execute c0 = Inr (Execute_timers c)" and "Execute_main c0 = Inr c"
    and "pc (Execute_timers c) = pc c0" and "pc c = pc c0"
proof -
  have nz: "inst c \<noteq> 0" using cls by (auto simp: spec_opcodeClass_def)
  show "Execute c0 = Inr (Execute_timers c)"
    using Execute_via_switch[OF dec nz stall_switch(1)[OF cls]] .
  show "Execute_main c0 = Inr c"
    using Execute_main_via_switch[OF dec nz] stall_switch(2)[OF cls] by simp
  show "pc (Execute_timers c) = pc c0" "pc c = pc c0"
    by (simp_all add: Execute_timers_fields Decode_fields[OF dec])
qed

lemma Execute_unknown_F:
  "Execute (loaded prog_unknown_F) = Inr ((loaded prog_unknown_F)\<lparr>inst := 0xF007\<rparr>)"
  "Execute_main (loaded prog_unknown_F) = Inr ((loaded prog_unknown_F)\<lparr>inst := 0xF007\<rparr>)"
  "Execute ((loaded prog_unknown_F)\<lparr>inst := 0xF007\<rparr>) = Inr ((loaded prog_unknown_F)\<lparr>inst := 0xF007\<rparr>)"
proof -
  have d: "Decode (loaded prog_unknown_F) = Inr ((loaded prog_unknown_F)\<lparr>inst := 0xF007\<rparr>)"
    by (simp add: Decode_at prog_unknown_F_def loaded_simps)
  have d': "Decode ((loaded prog_unknown_F)\<lparr>inst := 0xF007\<rparr>) = Inr ((loaded prog_unknown_F)\<lparr>inst := 0xF007\<rparr>)"
    by (simp add: Decode_at prog_unknown_F_def loaded_simps)
  have k: "spec_opcodeClass 0xF007 = 15" "spec_immByte 0xF007 = 7"
    by (simp_all add: spec_opcodeClass_def spec_immByte_def)
  show "Execute (loaded prog_unknown_F) = Inr ((loaded prog_unknown_F)\<lparr>inst := 0xF007\<rparr>)"
    using unknown_class_stall(1)[OF d] k by (simp add: Execute_timers_zero loaded_simps)
  show "Execute_main (loaded prog_unknown_F) = Inr ((loaded prog_unknown_F)\<lparr>inst := 0xF007\<rparr>)"
    using unknown_class_stall(2)[OF d] k by simp
  show "Execute ((loaded prog_unknown_F)\<lparr>inst := 0xF007\<rparr>) = Inr ((loaded prog_unknown_F)\<lparr>inst := 0xF007\<rparr>)"
    using unknown_class_stall(1)[OF d'] k by (simp add: Execute_timers_zero loaded_simps)
qed

lemma Execute_unknown_B:
  "Execute (loaded prog_unknown_B) = Inr ((loaded prog_unknown_B)\<lparr>inst := 0xB123\<rparr>)"
  "Execute_main (loaded prog_unknown_B) = Inr ((loaded prog_unknown_B)\<lparr>inst := 0xB123\<rparr>)"
proof -
  have d: "Decode (loaded prog_unknown_B) = Inr ((loaded prog_unknown_B)\<lparr>inst := 0xB123\<rparr>)"
    by (simp add: Decode_at prog_unknown_B_def loaded_simps)
  have k: "spec_opcodeClass 0xB123 = 11"
    by (simp_all add: spec_opcodeClass_def)
  show "Execute (loaded prog_unknown_B) = Inr ((loaded prog_unknown_B)\<lparr>inst := 0xB123\<rparr>)"
    using unknown_class_stall(1)[OF d] k by (simp add: Execute_timers_zero loaded_simps)
  show "Execute_main (loaded prog_unknown_B) = Inr ((loaded prog_unknown_B)\<lparr>inst := 0xB123\<rparr>)"
    using unknown_class_stall(2)[OF d] k by simp
qed

lemma Execute_unknown_8:
  "Execute (loaded prog_unknown_8) = Inr ((loaded prog_unknown_8)\<lparr>inst := 0x8008, pc := 0x202\<rparr>)"
proof -
  have d: "Decode (loaded prog_unknown_8) = Inr ((loaded prog_unknown_8)\<lparr>inst := 0x8008\<rparr>)"
    by (simp add: Decode_at prog_unknown_8_def loaded_simps)
  have k: "spec_opcodeClass 0x8008 = 8"
    by (simp_all add: spec_opcodeClass_def)
  have m: "Math8 ((loaded prog_unknown_8)\<lparr>inst := 0x8008\<rparr>) = (loaded prog_unknown_8)\<lparr>inst := 0x8008\<rparr>"
    by (simp add: Math8_def bottomNibble_def Let_def)
  show ?thesis
    using Execute_math(1)[OF d] k
    by (simp add: m IncPC_def Execute_timers_zero loaded_simps)
qed

lemma cycles_fixed:
  assumes "Execute c = Inr c"
  shows "cycles n c = Inr c"
  using assms by (induction n) simp_all

lemma cycles_stuck:
  assumes "Execute c0 = Inr c" and "Execute c = Inr c"
  shows "cycles (Suc n) c0 = Inr c"
  using assms by (simp add: cycles_fixed)

text \<open>
  Claim C6 on the program \<open>F007\<close> (class 0xF with a bottom byte that is neither 0x55 nor
  0x65): the cycle returns normally, reports nothing, and the program counter is still
  \<open>0x200\<close>, so every later cycle fetches the same word (a thousand cycles end in the same
  state).  The word \<open>B123\<close> of class 0xB does the same.  The sibling path does better: the
  word \<open>8008\<close>, a sub-field that \<^verbatim>\<open>Math8\<close> does not know, is a no-op that advances the program
  counter to \<open>0x202\<close>.  Lemma \<open>unknown_class_stall\<close> has the general statement.
\<close>

theorem unknown_opcode_stalls:
  "NewChip prog_unknown_F = Inr (loaded prog_unknown_F) \<and>
   Execute (loaded prog_unknown_F) = Inr ((loaded prog_unknown_F)\<lparr>inst := 0xF007\<rparr>) \<and>
   Execute_main (loaded prog_unknown_F) = Inr ((loaded prog_unknown_F)\<lparr>inst := 0xF007\<rparr>) \<and>
   pc ((loaded prog_unknown_F)\<lparr>inst := 0xF007\<rparr>) = pc (loaded prog_unknown_F) \<and>
   cycles 1000 (loaded prog_unknown_F) = Inr ((loaded prog_unknown_F)\<lparr>inst := 0xF007\<rparr>) \<and>
   Execute (loaded prog_unknown_B) = Inr ((loaded prog_unknown_B)\<lparr>inst := 0xB123\<rparr>) \<and>
   Execute_main (loaded prog_unknown_B) = Inr ((loaded prog_unknown_B)\<lparr>inst := 0xB123\<rparr>) \<and>
   pc ((loaded prog_unknown_B)\<lparr>inst := 0xB123\<rparr>) = pc (loaded prog_unknown_B) \<and>
   Execute (loaded prog_unknown_8) = Inr ((loaded prog_unknown_8)\<lparr>inst := 0x8008, pc := 0x202\<rparr>)"
proof -
  have "NewChip prog_unknown_F = Inr (loaded prog_unknown_F)"
    by (rule NewChip_loaded) (simp_all add: prog_unknown_F_def)
  moreover have "cycles 1000 (loaded prog_unknown_F) = Inr ((loaded prog_unknown_F)\<lparr>inst := 0xF007\<rparr>)"
    using cycles_stuck[OF Execute_unknown_F(1) Execute_unknown_F(3), of 999] by simp
  ultimately show ?thesis
    using Execute_unknown_F Execute_unknown_B Execute_unknown_8 by simp
qed

section \<open>Drawing\<close>

lemma of_nat_u8_nonzero: "0 < n \<Longrightarrow> n < 256 \<Longrightarrow> (of_nat n :: u8) \<noteq> 0"
proof
  assume a: "0 < n" "n < 256" "(of_nat n :: u8) = 0"
  have "unat (of_nat n :: u8) = n" using a(2) by (simp add: unat_of_nat)
  with a show False by simp
qed

lemma cell_distinct:
  assumes "m < 255"
  shows "unat (a :: u8) \<noteq> unat (a + 1 + of_nat m)"
proof
  assume "unat a = unat (a + 1 + of_nat m)"
  then have "a = a + (1 + of_nat m)" by (simp add: word_unat_eq_iff add.assoc)
  then have "(1 + of_nat m :: u8) = 0" by simp
  then have "(of_nat (Suc m) :: u8) = 0" by simp
  moreover have "(of_nat (Suc m) :: u8) \<noteq> 0"
    using assms by (intro of_nat_u8_nonzero) simp_all
  ultimately show False by simp
qed

lemma draw_loop_stop: "\<not> i < bound \<Longrightarrow> draw_loop x y bound i j c = Inr c"
  by (subst draw_loop.simps) simp

lemma draw_loop_step:
  assumes "i < bound" and "unat (64 * x + y + j) < length (gfx c)" and "unat i < length (memory c)"
  shows "draw_loop x y bound i j c =
           draw_loop x y bound (i + 1) (j + 1)
             (c\<lparr>gfx := (gfx c)[unat (64 * x + y + j) := memory c ! unat i]\<rparr>)"
  using assms by (subst draw_loop.simps) simp

lemma draw_loop_oob:
  assumes "i < bound" and "\<not> (unat (64 * x + y + j) < length (gfx c) \<and> unat i < length (memory c))"
  shows "draw_loop x y bound i j c = Inl IndexOutOfRange"
  using assms by (subst draw_loop.simps) auto

lemma unat_u8_lt: "unat (a :: u8) < 256"
  using unsigned_less[of a, where 'a=nat] by simp

lemma draw_loop_run:
  fixes x y j :: u8 and i bound :: u16
  assumes "unat i + k = unat bound" and "k \<le> 256"
    and "unat bound \<le> length (memory c)" and "256 \<le> length (gfx c)"
  shows "\<exists>g. draw_loop x y bound i j c = Inr (c\<lparr>gfx := g\<rparr>) \<and> length g = length (gfx c) \<and>
           (\<forall>m<k. g ! unat (64 * x + y + j + of_nat m) = memory c ! (unat i + m)) \<and>
           (\<forall>p. (\<forall>m<k. p \<noteq> unat (64 * x + y + j + of_nat m)) \<longrightarrow> g ! p = gfx c ! p)"
  using assms
proof (induction k arbitrary: i j c)
  case 0
  then have "\<not> i < bound" by (simp add: word_less_nat_alt)
  then have "draw_loop x y bound i j c = Inr (c\<lparr>gfx := gfx c\<rparr>)"
    by (simp add: draw_loop_stop)
  moreover have "length (gfx c) = length (gfx c)" ..
  ultimately show ?case by (intro exI[of _ "gfx c"]) simp
next
  case (Suc k)
  let ?cell = "unat (64 * x + y + j)"
  let ?c1 = "c\<lparr>gfx := (gfx c)[?cell := memory c ! unat i]\<rparr>"
  have lt: "i < bound" using Suc.prems(1) by (simp add: word_less_nat_alt)
  have cell: "?cell < length (gfx c)"
    using unat_u8_lt[of "64 * x + y + j"] Suc.prems(4) by simp
  have mem: "unat i < length (memory c)"
    using Suc.prems(1,3) by simp
  have i1: "unat (i + 1) = Suc (unat i)"
    using lt by unat_arith
  have step: "draw_loop x y bound i j c = draw_loop x y bound (i + 1) (j + 1) ?c1"
    using lt cell mem by (rule draw_loop_step)
  have "\<exists>g. draw_loop x y bound (i + 1) (j + 1) ?c1 = Inr (?c1\<lparr>gfx := g\<rparr>) \<and>
          length g = length (gfx ?c1) \<and>
          (\<forall>m<k. g ! unat (64 * x + y + (j + 1) + of_nat m) = memory ?c1 ! (unat (i + 1) + m)) \<and>
          (\<forall>p. (\<forall>m<k. p \<noteq> unat (64 * x + y + (j + 1) + of_nat m)) \<longrightarrow> g ! p = gfx ?c1 ! p)"
    using Suc.prems by (intro Suc.IH) (simp_all add: i1)
  then obtain g where g: "draw_loop x y bound (i + 1) (j + 1) ?c1 = Inr (?c1\<lparr>gfx := g\<rparr>)"
    and len: "length g = length (gfx c)"
    and rows: "\<And>m. m < k \<Longrightarrow> g ! unat (64 * x + y + (j + 1) + of_nat m) = memory c ! (Suc (unat i) + m)"
    and frame: "\<And>p. (\<forall>m<k. p \<noteq> unat (64 * x + y + (j + 1) + of_nat m)) \<Longrightarrow>
                  g ! p = (gfx c)[?cell := memory c ! unat i] ! p"
    by (auto simp: i1)
  have shift: "64 * x + y + j + of_nat (Suc m) = 64 * x + y + (j + 1) + of_nat m" for m
    by (simp add: algebra_simps)
  have first: "g ! ?cell = memory c ! unat i"
  proof -
    have "\<forall>m<k. ?cell \<noteq> unat (64 * x + y + (j + 1) + of_nat m)"
    proof (intro allI impI)
      fix m assume "m < k"
      then have "m < 255" using Suc.prems(2) by simp
      from cell_distinct[OF this, of "64 * x + y + j"]
      show "?cell \<noteq> unat (64 * x + y + (j + 1) + of_nat m)"
        by (simp add: add.assoc)
    qed
    from frame[OF this] cell show ?thesis by simp
  qed
  have A: "g ! unat (64 * x + y + j + of_nat m) = memory c ! (unat i + m)" if "m < Suc k" for m
  proof (cases m)
    case 0
    then show ?thesis using first by simp
  next
    case (Suc m')
    with that have "m' < k" by simp
    from rows[OF this] show ?thesis unfolding Suc shift by simp
  qed
  have B: "g ! p = gfx c ! p" if p: "\<forall>m<Suc k. p \<noteq> unat (64 * x + y + j + of_nat m)" for p
  proof -
    from p have "p \<noteq> unat (64 * x + y + j + of_nat 0)" by blast
    then have p0: "p \<noteq> ?cell" by simp
    have "\<forall>m<k. p \<noteq> unat (64 * x + y + (j + 1) + of_nat m)"
    proof (intro allI impI)
      fix m assume "m < k"
      then have "Suc m < Suc k" by simp
      with p have "p \<noteq> unat (64 * x + y + j + of_nat (Suc m))" by blast
      then show "p \<noteq> unat (64 * x + y + (j + 1) + of_nat m)" unfolding shift .
    qed
    from frame[OF this] p0 show ?thesis by simp
  qed
  have "draw_loop x y bound i j c = Inr (c\<lparr>gfx := g\<rparr>)"
    using step g by simp
  with len A B show ?case by blast
qed

lemma unat_ucast_u8_u16: "unat (ucast (a :: u8) :: u16) = unat a"
  using unat_u8_lt[of a] by (simp add: unsigned_ucast_eq take_bit_eq_mod)

lemma draw_bound:
  assumes "unat (idx :: u16) + spec_immNibble w < 256"
  shows "unat (ucast ((ucast (w AND 0x000F) :: u8) + ucast idx) :: u16) = unat idx + spec_immNibble w"
proof -
  have "unat ((ucast (w AND 0x000F) :: u8) + ucast idx) =
          (unat (ucast (w AND 0x000F) :: u8) + unat (ucast idx :: u8)) mod 256"
    by (rule unat_add_u8)
  also have "\<dots> = (spec_immNibble w + unat idx mod 256) mod 256"
  proof -
    have a: "unat (ucast (w AND 0x000F) :: u8) = spec_immNibble w" by (rule unat_imm1)
    have b: "unat (ucast idx :: u8) = unat idx mod 256" by (rule unat_ucast_u16_u8)
    show ?thesis by (simp only: a b)
  qed
  also have "\<dots> = unat idx + spec_immNibble w"
    using assms by simp
  finally show ?thesis by (simp add: unat_ucast_u8_u16)
qed

lemma unat_cell: "unat (64 * (a :: u8) + b + of_nat m) = (64 * unat a + unat b + m) mod 256"
  by (simp add: unat_word_ariths unat_of_nat mod_simps)

lemma class_13_nonzero: "spec_opcodeClass w = 13 \<Longrightarrow> w \<noteq> 0"
  by (auto simp: spec_opcodeClass_def)

lemma draw_switch:
  assumes "spec_opcodeClass (inst c) = 13"
  shows "Execute_switch c =
    (case draw_loop (v c ! spec_regX (inst c)) (v c ! spec_regY (inst c))
            (ucast ((ucast (inst c AND 0x000F) :: u8) + ucast (index c))) (index c) 0 c of
       Inl e \<Rightarrow> Inl e
     | Inr c1 \<Rightarrow> Inr (IncPC c1))"
  using assms
  by (simp add: Execute_switch_def step_defs topNibble_class unat_GetXReg unat_GetYReg)

text \<open>
  Claim C1, amended.  In the later revision the draw opcode (class 0xD) with \<open>n\<close> the bottom
  nibble, \<open>x = v[regX]\<close>, \<open>y = v[regY]\<close> and \<open>index + n < 256\<close> copies, for each row
  \<open>j < n\<close>, the whole byte \<open>memory[index + j]\<close> into the display cell
  \<open>gfx[(64 * x + y + j) mod 256]\<close>: the byte overwrites the cell, there is no XOR, no
  expansion into eight cells and no wrap at 64 by 32.  Every other display cell, every
  register including \<open>vF\<close>, the memory, the index register and the stack are unchanged,
  and the program counter advances by 2.  (What the loop bound does once \<open>index + n\<close>
  reaches 256 is left out.)
\<close>

theorem draw_sprite:
  assumes dec: "Decode c0 = Inr c"
    and cls: "spec_opcodeClass (inst c) = 13"
    and small: "unat (index c0) + spec_immNibble (inst c) < 256"
    and mem: "256 \<le> length (memory c0)"
    and dsp: "256 \<le> length (gfx c0)"
  shows "\<exists>c'. Execute c0 = Inr c' \<and> length (gfx c') = length (gfx c0) \<and>
           (\<forall>m < spec_immNibble (inst c).
              gfx c' ! ((64 * unat (v c0 ! spec_regX (inst c)) + unat (v c0 ! spec_regY (inst c)) + m) mod 256)
                = memory c0 ! (unat (index c0) + m)) \<and>
           (\<forall>p. (\<forall>m < spec_immNibble (inst c).
                   p \<noteq> (64 * unat (v c0 ! spec_regX (inst c)) + unat (v c0 ! spec_regY (inst c)) + m) mod 256)
                \<longrightarrow> gfx c' ! p = gfx c0 ! p) \<and>
           v c' = v c0 \<and> memory c' = memory c0 \<and> index c' = index c0 \<and>
           stack c' = stack c0 \<and> sp c' = sp c0 \<and> pc c' = pc c0 + 2"
proof -
  note f = Decode_fields[OF dec]
  have nz: "inst c \<noteq> 0" using cls by (rule class_13_nonzero)
  let ?n = "spec_immNibble (inst c)"
  let ?X = "v c ! spec_regX (inst c)" and ?Y = "v c ! spec_regY (inst c)"
  let ?bound = "ucast ((ucast (inst c AND 0x000F) :: u8) + ucast (index c)) :: u16"
  have b: "unat (index c) + ?n = unat ?bound"
    using draw_bound[of "index c" "inst c"] small by (simp add: f)
  have n: "?n \<le> 256" by (simp add: spec_immNibble_def)
  have m: "unat ?bound \<le> length (memory c)"
    using b small mem by (simp add: f)
  have g: "256 \<le> length (gfx c)" using dsp by (simp add: f)
  from draw_loop_run[OF b n m g, of ?X ?Y 0]
  obtain gf where run: "draw_loop ?X ?Y ?bound (index c) 0 c = Inr (c\<lparr>gfx := gf\<rparr>)"
    and len: "length gf = length (gfx c)"
    and rows: "\<forall>m<?n. gf ! unat (64 * ?X + ?Y + 0 + of_nat m) = memory c ! (unat (index c) + m)"
    and frame: "\<forall>p. (\<forall>m<?n. p \<noteq> unat (64 * ?X + ?Y + 0 + of_nat m)) \<longrightarrow> gf ! p = gfx c ! p"
    by blast
  have sw: "Execute_switch c = Inr (IncPC (c\<lparr>gfx := gf\<rparr>))"
    by (simp add: draw_switch[OF cls] run)
  have ex: "Execute c0 = Inr (Execute_timers (IncPC (c\<lparr>gfx := gf\<rparr>)))"
    using Execute_via_switch[OF dec nz sw] .
  show ?thesis
    using len rows frame
    by (simp add: ex Execute_timers_fields IncPC_def f unat_cell)
qed

lemma Init_font:
  "80 \<le> i \<Longrightarrow> i < 160 \<Longrightarrow> memory (Init c) ! i = fontSet ! (i - 80)"
proof -
  assume a: "80 \<le> i" "i < 160"
  then have "i - 80 < 80" by arith
  with a show ?thesis
    by (simp add: Init_def FONT_OFFSET_def nth_append length_fontSet)
qed

lemma font_byte_0: "memory (loaded prog) ! 80 = 0xF0"
proof -
  have "memory (loaded prog) ! 80 = memory (Init new_Chip8) ! 80"
    by (rule loaded_memory_low) simp
  also have "\<dots> = fontSet ! (80 - 80)"
    by (rule Init_font) simp_all
  also have "\<dots> = 0xF0" by (simp add: fontSet_def)
  finally show ?thesis .
qed

lemma draw_step1: "Execute (loaded prog_draw) = Inr ex_draw"
proof -
  have d: "Decode (loaded prog_draw) = Inr ((loaded prog_draw)\<lparr>inst := 0xA050\<rparr>)"
    by (simp add: Decode_at prog_draw_def loaded_simps)
  have s: "Execute_switch ((loaded prog_draw)\<lparr>inst := 0xA050\<rparr>) = Inr ex_draw"
    by (subst setindex_switch(1)) (simp_all add: topNibble_def loaded_simps ex_draw_def)
  show ?thesis
    by (rule Execute_step[OF d _ s]) (simp_all add: loaded_simps ex_draw_def)
qed

lemma draw_fields:
  "spec_opcodeClass 0xD011 = 13" "spec_immNibble 0xD011 = 1" "spec_regX 0xD011 = 0" "spec_regY 0xD011 = 1"
  by (simp_all add: spec_opcodeClass_def spec_immNibble_def spec_regX_def spec_regY_def)

lemma Decode_ex_draw: "Decode ex_draw = Inr (ex_draw\<lparr>inst := 0xD011\<rparr>)"
  by (simp add: Decode_at prog_draw_def ex_draw_def loaded_simps)

lemma Decode_ex_drawn: "Decode ex_drawn = Inr ex_drawn"
proof -
  have "Decode ex_drawn = Inr (ex_drawn\<lparr>inst := 0xD011\<rparr>)"
    by (simp add: Decode_at prog_draw_def ex_drawn_def loaded_simps)
  then show ?thesis by (simp add: ex_drawn_def)
qed

lemma draw_loop_once:
  assumes "memory c ! 80 = b" and "80 < length (memory c)" and "0 < length (gfx c)"
  shows "draw_loop 0 0 0x51 0x050 0 c = Inr (c\<lparr>gfx := (gfx c)[0 := b]\<rparr>)"
proof -
  have "draw_loop 0 0 0x51 0x050 0 c = draw_loop 0 0 0x51 (0x050 + 1) (0 + 1) (c\<lparr>gfx := (gfx c)[unat (64 * 0 + 0 + 0 :: u8) := memory c ! unat (0x050 :: u16)]\<rparr>)"
    using assms by (intro draw_loop_step) simp_all
  also have "\<dots> = Inr (c\<lparr>gfx := (gfx c)[0 := b]\<rparr>)"
    using assms by (subst draw_loop_stop) simp_all
  finally show ?thesis using assms by simp
qed

lemma draw_step2: "Execute ex_draw = Inr ex_drawn"
proof -
  have s: "Execute_switch (ex_draw\<lparr>inst := 0xD011\<rparr>) = Inr ex_drawn"
    apply (subst draw_switch)
     apply (simp add: draw_fields)
    apply (simp add: draw_fields ex_draw_def loaded_simps replicate_16)
    apply (subst draw_loop_once[where b = "0xF0"])
       apply (simp_all add: loaded_simps font_byte_0 prog_draw_def IncPC_def ex_drawn_def)
    done
  show ?thesis
    by (rule Execute_step[OF Decode_ex_draw _ s]) (simp_all add: loaded_simps ex_drawn_def)
qed

lemma draw_step3: "Execute ex_drawn = Inr (ex_drawn\<lparr>pc := 0x206\<rparr>)"
proof -
  have s: "Execute_switch ex_drawn = Inr (ex_drawn\<lparr>pc := 0x206\<rparr>)"
    apply (subst draw_switch)
     apply (simp add: draw_fields ex_drawn_def)
    apply (simp add: draw_fields ex_drawn_def loaded_simps replicate_16)
    apply (subst draw_loop_once[where b = "0xF0"])
       apply (simp_all add: loaded_simps font_byte_0 prog_draw_def IncPC_def)
    done
  show ?thesis
    by (rule Execute_step[OF Decode_ex_drawn _ s]) (simp_all add: loaded_simps ex_drawn_def)
qed

lemma spec_first:
  "snd (spec_draw (replicate 2048 0) [0xF0] 0 0) = 0"
  "fst (spec_draw (replicate 2048 0) [0xF0] 0 0) ! 0 = 1"
  "fst (spec_draw (replicate 2048 0) [0xF0] 0 0) ! 1 = 1"
  "fst (spec_draw (replicate 2048 0) [0xF0] 0 0) ! 3 = 1"
  "fst (spec_draw (replicate 2048 0) [0xF0] 0 0) ! 4 = 0"
  by (simp_all add: spec_draw_def spec_draw_pixel_def Let_def)

lemma spec_second:
  "snd (spec_draw (fst (spec_draw (replicate 2048 0) [0xF0] 0 0)) [0xF0] 0 0) = 1"
  "fst (spec_draw (fst (spec_draw (replicate 2048 0) [0xF0] 0 0)) [0xF0] 0 0) ! 0 = 0"
  by (simp_all add: spec_draw_def spec_draw_pixel_def Let_def)

text \<open>
  Claim C1 on the program \<open>A050; D011; D011\<close>: the index register points at the first font
  byte \<open>0xF0\<close>, and the sprite of one row is drawn twice at \<open>v0 = v1 = 0\<close> on a cleared
  display.  By the claim the first draw lights the cells 0 to 3 of row 0 (value 1), and the
  second draw puts them out again and sets \<open>vF\<close> to 1.  The code stores the whole byte
  \<open>0xF0\<close> in cell 0 and nothing in the cells 1 and 3; after the second draw cell 0 still
  holds \<open>0xF0\<close> and \<open>vF\<close> is 0.
\<close>

theorem draw_xor_counterexample:
  "NewChip prog_draw = Inr (loaded prog_draw) \<and>
   Execute (loaded prog_draw) = Inr ex_draw \<and>
   index ex_draw = 0x050 \<and> memory ex_draw ! 0x50 = 0xF0 \<and>
   v ex_draw ! 0 = 0 \<and> v ex_draw ! 1 = 0 \<and> v ex_draw ! 0xF = 0 \<and>
   gfx ex_draw = replicate 2048 0 \<and>
   Execute ex_draw = Inr ex_drawn \<and>
   gfx ex_drawn ! 0 = 0xF0 \<and> gfx ex_drawn ! 1 = 0 \<and> gfx ex_drawn ! 3 = 0 \<and>
   fst (spec_draw (replicate 2048 0) [0xF0] 0 0) ! 0 = 1 \<and>
   fst (spec_draw (replicate 2048 0) [0xF0] 0 0) ! 1 = 1 \<and>
   fst (spec_draw (replicate 2048 0) [0xF0] 0 0) ! 3 = 1 \<and>
   Execute ex_drawn = Inr (ex_drawn\<lparr>pc := 0x206\<rparr>) \<and>
   v (ex_drawn\<lparr>pc := 0x206\<rparr>) ! 0xF = 0 \<and>
   gfx (ex_drawn\<lparr>pc := 0x206\<rparr>) ! 0 = 0xF0 \<and>
   snd (spec_draw (fst (spec_draw (replicate 2048 0) [0xF0] 0 0)) [0xF0] 0 0) = 1 \<and>
   fst (spec_draw (fst (spec_draw (replicate 2048 0) [0xF0] 0 0)) [0xF0] 0 0) ! 0 = 0"
proof -
  have "NewChip prog_draw = Inr (loaded prog_draw)"
    by (rule NewChip_loaded) (simp_all add: prog_draw_def)
  moreover have "memory ex_draw ! 0x50 = 0xF0"
    using font_byte_0[of prog_draw] by (simp add: ex_draw_def)
  ultimately show ?thesis
    using draw_step1 draw_step2 draw_step3 spec_first spec_second
    by (simp add: ex_draw_def ex_drawn_def loaded_simps replicate_16)
qed

theorem draw_sprite_witness:
  "Decode ex_draw = Inr (ex_draw\<lparr>inst := 0xD011\<rparr>) \<and> spec_opcodeClass 0xD011 = 13 \<and>
   unat (index ex_draw) + spec_immNibble 0xD011 < 256 \<and>
   256 \<le> length (memory ex_draw) \<and> 256 \<le> length (gfx ex_draw) \<and>
   (\<exists>c'. Execute ex_draw = Inr c' \<and> gfx c' ! 0 = memory ex_draw ! 80 \<and>
      v c' = v ex_draw \<and> pc c' = 0x204)"
proof -
  have h: "unat (index ex_draw) + spec_immNibble 0xD011 < 256"
    "256 \<le> length (memory ex_draw)" "256 \<le> length (gfx ex_draw)"
    by (simp_all add: ex_draw_def draw_fields loaded_simps prog_draw_def)
  have i: "unat (index ex_draw) = 80" "pc ex_draw = 0x202"
    "v ex_draw ! 0 = 0" "v ex_draw ! Suc 0 = 0"
    by (simp_all add: ex_draw_def loaded_simps replicate_16)
  from draw_sprite[OF Decode_ex_draw _ _ h(2,3)] h(1)
  obtain c' where e: "Execute ex_draw = Inr c'"
    and r: "\<forall>m < spec_immNibble 0xD011.
              gfx c' ! ((64 * unat (v ex_draw ! spec_regX 0xD011) + unat (v ex_draw ! spec_regY 0xD011) + m) mod 256)
                = memory ex_draw ! (unat (index ex_draw) + m)"
    and f: "v c' = v ex_draw" "pc c' = pc ex_draw + 2"
    by (auto simp: draw_fields)
  from r have "gfx c' ! 0 = memory ex_draw ! 80"
    by (simp add: draw_fields i)
  with e f i Decode_ex_draw h show ?thesis
    by (simp add: draw_fields)
qed

text \<open>
  The loop bound of the draw opcode is computed in eight bits, so with the index register
  at 256 or beyond the loop does not run at all: nothing is drawn.
\<close>

lemma draw_beyond_256:
  assumes dec: "Decode c0 = Inr c"
    and cls: "spec_opcodeClass (inst c) = 13"
    and high: "256 \<le> unat (index c0)"
  shows "\<exists>c'. Execute c0 = Inr c' \<and> gfx c' = gfx c0 \<and> v c' = v c0 \<and> pc c' = pc c0 + 2"
proof -
  note f = Decode_fields[OF dec]
  have nz: "inst c \<noteq> 0" using cls by (rule class_13_nonzero)
  let ?bound = "ucast ((ucast (inst c AND 0x000F) :: u8) + ucast (index c)) :: u16"
  have "unat ?bound < 256"
    using unat_u8_lt[of "(ucast (inst c AND 0x000F) :: u8) + ucast (index c)"]
    by (simp add: unat_ucast_u8_u16)
  with high have "\<not> index c < ?bound"
    by (simp add: word_less_nat_alt f)
  then have sw: "Execute_switch c = Inr (IncPC c)"
    by (simp add: draw_switch[OF cls] draw_loop_stop)
  show ?thesis
    using Execute_via_switch[OF dec nz sw]
    by (simp add: Execute_timers_fields IncPC_def f)
qed

section \<open>The machines the interpreter reaches\<close>

lemma machine_inv_Init: "machine_inv (Init new_Chip8)"
  by (simp add: machine_inv_def well_formed_def Init_memory_length memSize_def)
     (simp add: Init_def new_Chip8_def)

lemma machine_inv_LoadProgram:
  assumes "machine_inv c" and "LoadProgram c prog = Inr c'"
  shows "machine_inv c'"
  using assms
  by (auto simp: machine_inv_def well_formed_def LoadProgram_def Let_def memSize_def progStart_def
        min_def split: if_splits)

lemma machine_inv_NewChip: "NewChip prog = Inr c \<Longrightarrow> machine_inv c"
  unfolding NewChip_def by (rule machine_inv_LoadProgram[OF machine_inv_Init])

lemma machine_inv_inst: "machine_inv (c\<lparr>inst := w\<rparr>) = machine_inv c"
  by (simp add: machine_inv_def well_formed_def)

lemma machine_inv_pc: "machine_inv (c\<lparr>pc := w\<rparr>) = machine_inv c"
  by (simp add: machine_inv_def well_formed_def)

lemma machine_inv_timers: "machine_inv (Execute_timers c) = machine_inv c"
  by (simp add: machine_inv_def well_formed_def Execute_timers_fields Execute_timers_def Let_def)

lemma machine_inv_Math8: "machine_inv c \<Longrightarrow> machine_inv (Math8 c)"
  by (simp add: machine_inv_def well_formed_def Math8_def Let_def)

lemma draw_loop_fields:
  "draw_loop x y bound i j c = Inr c' \<Longrightarrow> \<exists>g. c' = c\<lparr>gfx := g\<rparr> \<and> length g = length (gfx c)"
proof (induction x y bound i j c rule: draw_loop.induct)
  case (1 x y bound i j c)
  show ?case
  proof (cases "i < bound")
    case True
    with "1.prems" have ok: "unat (64 * x + y + j) < length (gfx c) \<and> unat i < length (memory c)"
      by (subst (asm) draw_loop.simps) (simp split: if_splits)
    with True "1.prems" have
      "draw_loop x y bound (i + 1) (j + 1)
         (c\<lparr>gfx := (gfx c)[unat (64 * x + y + j) := memory c ! unat i]\<rparr>) = Inr c'"
      by (subst (asm) draw_loop.simps) simp
    from "1.IH"[OF True ok this] show ?thesis by auto
  next
    case False
    with "1.prems" have "c' = c\<lparr>gfx := gfx c\<rparr>"
      by (subst (asm) draw_loop.simps) simp
    then show ?thesis by blast
  qed
qed

lemma machine_inv_gfx: "length g = length (gfx c) \<Longrightarrow> machine_inv (c\<lparr>gfx := g\<rparr>) = machine_inv c"
  by (simp add: machine_inv_def well_formed_def)

lemma machine_inv_SetIndex: "machine_inv c \<Longrightarrow> machine_inv (SetIndex c)"
  by (simp add: machine_inv_def well_formed_def SetIndex_def unat_and_4095 memSize_def)

lemma machine_inv_switch:
  assumes inv: "machine_inv c" and sw: "Execute_switch c = Inr c'"
  shows "machine_inv c'"
proof (cases "inst c" rule: top_cases)
  case cD
  with sw obtain c1 where
    "draw_loop (v c ! unat (GetXReg c)) (v c ! unat (GetYReg c))
       (ucast ((ucast (inst c AND 0x000F) :: u8) + ucast (index c))) (index c) 0 c = Inr c1"
    and c': "c' = IncPC c1"
    by (auto simp: Execute_switch_def step_defs split: sum.splits)
  from draw_loop_fields[OF this(1)] inv have "machine_inv c1"
    by (auto simp: machine_inv_gfx)
  then show ?thesis by (simp add: c' IncPC_def machine_inv_pc)
next
  case c8
  with sw inv show ?thesis
    by (auto simp: Execute_switch_def step_defs machine_inv_pc machine_inv_Math8)
next
  case cA
  with sw machine_inv_SetIndex[OF inv] show ?thesis
    by (auto simp: Execute_switch_def Let_def IncPC_def machine_inv_pc)
next
  case cF
  with sw inv show ?thesis
    by (auto simp: Execute_switch_def step_defs machine_inv_def well_formed_def split: if_splits)
qed (use sw inv in \<open>auto simp: Execute_switch_def step_defs machine_inv_def well_formed_def split: if_splits\<close>)

lemma machine_inv_Execute:
  assumes "machine_inv c" and "Execute c = Inr c'"
  shows "machine_inv c'"
proof -
  from assms(2) obtain d where d: "Decode c = Inr d"
    by (auto simp: Execute_def split: sum.splits)
  have invd: "machine_inv d"
    using assms(1) by (subst Decode_Inr_eq[OF d]) (simp add: machine_inv_inst)
  show ?thesis
  proof (cases "inst d = 0")
    case True
    with assms(2) d invd show ?thesis by (simp add: Execute_def)
  next
    case False
    with assms(2) d obtain c1 where "Execute_switch d = Inr c1" "c' = Execute_timers c1"
      by (auto simp: Execute_def split: sum.splits)
    with machine_inv_switch[OF invd] show ?thesis by (simp add: machine_inv_timers)
  qed
qed

lemma machine_inv_cycles:
  "machine_inv c \<Longrightarrow> cycles n c = Inr c' \<Longrightarrow> machine_inv c'"
proof (induction n arbitrary: c)
  case 0
  then show ?case by simp
next
  case (Suc n)
  then show ?case
    by (auto split: sum.splits dest: machine_inv_Execute)
qed

lemma draw_loop_total:
  fixes bound i :: u16
  assumes "unat bound \<le> 256" and "256 \<le> length (memory c)" and "256 \<le> length (gfx c)"
  shows "\<exists>c'. draw_loop x y bound i j c = Inr c'"
proof (cases "i < bound")
  case True
  then have k: "unat i + (unat bound - unat i) = unat bound"
    by (simp add: word_less_nat_alt)
  have "unat bound - unat i \<le> 256" using assms(1) by simp
  moreover have "unat bound \<le> length (memory c)" using assms(1,2) by simp
  ultimately show ?thesis
    using draw_loop_run[OF k _ _ assms(3), of x y j] by blast
next
  case False
  then show ?thesis by (simp add: draw_loop_stop)
qed

lemma unat_ucast_u8_le: "unat (ucast (a :: u8) :: u16) \<le> 256"
  using unat_u8_lt[of a] by (simp add: unat_ucast_u8_u16)

lemma switch_total:
  assumes inv: "machine_inv c"
  shows "\<exists>c'. Execute_switch c = Inr c'"
proof (cases "inst c" rule: top_cases)
  case cD
  have "\<exists>c'. draw_loop (v c ! unat (GetXReg c)) (v c ! unat (GetYReg c))
       (ucast ((ucast (inst c AND 0x000F) :: u8) + ucast (index c))) (index c) 0 c = Inr c'"
    using inv by (intro draw_loop_total unat_ucast_u8_le) (simp_all add: machine_inv_def memSize_def)
  with cD show ?thesis
    by (auto simp: Execute_switch_def step_defs)
next
  case cF
  with inv show ?thesis
    by (simp add: Execute_switch_def step_defs machine_inv_def)
qed (simp_all add: Execute_switch_def step_defs)

lemma Execute_total:
  assumes inv: "machine_inv c" and pc: "unat (pc c) + 1 < memSize"
  shows "\<exists>c'. Execute c = Inr c'"
proof -
  have "unat (pc c) + 1 < length (memory c)" "length (memory c) \<le> 4096"
    using inv pc by (simp_all add: machine_inv_def memSize_def)
  from Decode_at[OF this] obtain d where d: "Decode c = Inr d" by blast
  have "machine_inv d"
    using inv by (subst Decode_Inr_eq[OF d]) (simp add: machine_inv_inst)
  from switch_total[OF this] d show ?thesis
    by (auto simp: Execute_def)
qed

lemma Execute_panics_only_on_fetch:
  assumes inv: "machine_inv c"
  shows "Execute c = Inl e \<longleftrightarrow> e = IndexOutOfRange \<and> \<not> unat (pc c) + 1 < memSize"
proof
  assume l: "Execute c = Inl e"
  have n: "\<not> unat (pc c) + 1 < memSize"
    using Execute_total[OF inv] l by auto
  then have "Decode c = Inl IndexOutOfRange"
    using inv unsigned_less[of "pc c", where 'a=nat]
    by (auto simp: Decode_def machine_inv_def memSize_def unat_word_ariths)
  with l n show "e = IndexOutOfRange \<and> \<not> unat (pc c) + 1 < memSize"
    by (simp add: Execute_def)
next
  assume r: "e = IndexOutOfRange \<and> \<not> unat (pc c) + 1 < memSize"
  then have "Decode c = Inl IndexOutOfRange"
    using inv unsigned_less[of "pc c", where 'a=nat]
    by (auto simp: Decode_def machine_inv_def memSize_def unat_word_ariths)
  with r show "Execute c = Inl e" by (simp add: Execute_def)
qed

text \<open>Both timers are zero after \<^verbatim>\<open>NewChip\<close>, and a cycle keeps them so.\<close>

lemma NewChip_timers:
  assumes "NewChip prog = Inr c"
  shows "delayTimer c = 0 \<and> soundTimer c = 0"
  using assms
  by (auto simp: NewChip_def LoadProgram_def Init_def Let_def split: if_splits)

lemma Execute_keeps_zero_timers:
  assumes z: "delayTimer c = 0" "soundTimer c = 0" and e: "Execute c = Inr c'"
  shows "delayTimer c' = 0 \<and> soundTimer c' = 0"
proof -
  from e obtain d where d: "Decode c = Inr d"
    by (auto simp: Execute_def split: sum.splits)
  note f = Decode_fields[OF d]
  show ?thesis
  proof (cases "inst d = 0")
    case True
    with e d have "c' = d" by (simp add: Execute_def)
    with z f show ?thesis by simp
  next
    case False
    with e d obtain c1 where s: "Execute_switch d = Inr c1" and c': "c' = Execute_timers c1"
      by (auto simp: Execute_def split: sum.splits)
    from switch_timers[OF s] z f have "delayTimer c1 = 0" "soundTimer c1 = 0"
      by simp_all
    then show ?thesis by (simp add: c' timers_dec)
  qed
qed

lemma cycles_keep_zero_timers:
  "delayTimer c = 0 \<and> soundTimer c = 0 \<Longrightarrow> cycles n c = Inr c' \<Longrightarrow>
     delayTimer c' = 0 \<and> soundTimer c' = 0"
proof (induction n arbitrary: c)
  case 0
  then show ?case by simp
next
  case (Suc n)
  from Suc.prems(2) obtain c1 where e: "Execute c = Inr c1" and r: "cycles n c1 = Inr c'"
    by (auto split: sum.splits)
  from Suc.prems(1) e have "delayTimer c1 = 0 \<and> soundTimer c1 = 0"
    using Execute_keeps_zero_timers by blast
  from Suc.IH[OF this r] show ?case .
qed

lemma cycles_1: "Execute c = Inr c1 \<Longrightarrow> cycles 1 c = Inr c1"
  by simp

lemma Execute_main_timers:
  assumes "Execute_main c = Inr c'"
  shows "delayTimer c' = delayTimer c \<and> soundTimer c' = soundTimer c"
proof -
  from assms obtain d where d: "Decode c = Inr d" and s: "Execute_main_switch d = Inr c'"
    by (auto simp: Execute_main_def split: sum.splits if_splits)
  from main_switch_timers[OF s] Decode_fields[OF d] show ?thesis by simp
qed

text \<open>
  Claim C5.  On every machine that \<^verbatim>\<open>NewChip\<close> followed by any number of cycles produces,
  one more cycle leaves \<open>delayTimer\<close> and \<open>soundTimer\<close> as they are, whatever the
  instruction, and the cycle does complete whenever the program counter is inside the
  memory.  \<^verbatim>\<open>Init\<close> zeroes both timers and no opcode writes them, so the countdown that
  ends \<^verbatim>\<open>Execute\<close> in the later revision never finds a timer above zero; the earlier
  revision has no countdown and leaves the timers alone on any machine.  Instruction
  execution never decrements a timer.
\<close>

theorem timers_unchanged:
  assumes new: "NewChip prog = Inr c"
    and run: "cycles n c = Inr c0"
  shows "(\<forall>c'. Execute c0 = Inr c' \<longrightarrow>
            delayTimer c' = delayTimer c0 \<and> soundTimer c' = soundTimer c0) \<and>
         (unat (pc c0) + 1 < memSize \<longrightarrow> (\<exists>c'. Execute c0 = Inr c')) \<and>
         (\<forall>c'. Execute_main c0 = Inr c' \<longrightarrow>
            delayTimer c' = delayTimer c0 \<and> soundTimer c' = soundTimer c0)"
proof (intro conjI allI impI)
  from cycles_keep_zero_timers[OF NewChip_timers[OF new] run]
  have z: "delayTimer c0 = 0" "soundTimer c0 = 0" by simp_all
  have inv: "machine_inv c0"
    using machine_inv_NewChip[OF new] run by (rule machine_inv_cycles)
  {
    fix c' assume "Execute c0 = Inr c'"
    from Execute_keeps_zero_timers[OF z this] z
    show "delayTimer c' = delayTimer c0" "soundTimer c' = soundTimer c0" by simp_all
  }
  {
    assume "unat (pc c0) + 1 < memSize"
    with inv show "\<exists>c'. Execute c0 = Inr c'" by (rule Execute_total)
  }
  {
    fix c' assume "Execute_main c0 = Inr c'"
    from Execute_main_timers[OF this]
    show "delayTimer c' = delayTimer c0" "soundTimer c' = soundTimer c0" by simp_all
  }
qed

lemma index_step1:
  "Execute (loaded prog_index) = Inr ((loaded prog_index)\<lparr>inst := 0xA123, index := 0x123, pc := 0x202\<rparr>)"
proof -
  have d: "Decode (loaded prog_index) = Inr ((loaded prog_index)\<lparr>inst := 0xA123\<rparr>)"
    by (simp add: Decode_at prog_index_def loaded_simps)
  have s: "Execute_switch ((loaded prog_index)\<lparr>inst := 0xA123\<rparr>) =
             Inr ((loaded prog_index)\<lparr>inst := 0xA123, index := 0x123, pc := 0x202\<rparr>)"
    by (subst setindex_switch(1)) (simp_all add: topNibble_def loaded_simps)
  show ?thesis
    by (rule Execute_step[OF d _ s]) (simp_all add: loaded_simps)
qed

lemma index_step2:
  "Execute ((loaded prog_index)\<lparr>inst := 0xA123, index := 0x123, pc := 0x202\<rparr>) =
     Inr ((loaded prog_index)\<lparr>inst := 0x60AB, index := 0x123, pc := 0x204,
                               v := 0xAB # 0 # replicate 14 0\<rparr>)"
  (is "Execute ?a = Inr ?b")
proof -
  have d: "Decode ?a = Inr (?a\<lparr>inst := 0x60AB\<rparr>)"
    by (simp add: Decode_at prog_index_def loaded_simps)
  have s: "Execute_switch (?a\<lparr>inst := 0x60AB\<rparr>) = Inr ?b"
    by (subst load_switch(1)) (simp_all add: topNibble_def GetXReg_def loaded_simps replicate_16)
  show ?thesis
    by (rule Execute_step[OF d _ s]) (simp_all add: loaded_simps)
qed

theorem timers_unchanged_witness:
  "NewChip prog_index = Inr (loaded prog_index) \<and>
   cycles 1 (loaded prog_index) =
     Inr ((loaded prog_index)\<lparr>inst := 0xA123, index := 0x123, pc := 0x202\<rparr>) \<and>
   Execute ((loaded prog_index)\<lparr>inst := 0xA123, index := 0x123, pc := 0x202\<rparr>) =
     Inr ((loaded prog_index)\<lparr>inst := 0x60AB, index := 0x123, pc := 0x204,
                               v := 0xAB # 0 # replicate 14 0\<rparr>) \<and>
   unat (pc ((loaded prog_index)\<lparr>inst := 0xA123, index := 0x123, pc := 0x202\<rparr>)) + 1 < memSize \<and>
   delayTimer ((loaded prog_index)\<lparr>inst := 0x60AB, index := 0x123, pc := 0x204,
                                    v := 0xAB # 0 # replicate 14 0\<rparr>)
     = delayTimer ((loaded prog_index)\<lparr>inst := 0xA123, index := 0x123, pc := 0x202\<rparr>) \<and>
   soundTimer ((loaded prog_index)\<lparr>inst := 0x60AB, index := 0x123, pc := 0x204,
                                    v := 0xAB # 0 # replicate 14 0\<rparr>)
     = soundTimer ((loaded prog_index)\<lparr>inst := 0xA123, index := 0x123, pc := 0x202\<rparr>)"
proof -
  have n: "NewChip prog_index = Inr (loaded prog_index)"
    by (rule NewChip_loaded) (simp_all add: prog_index_def)
  have c: "cycles 1 (loaded prog_index) =
             Inr ((loaded prog_index)\<lparr>inst := 0xA123, index := 0x123, pc := 0x202\<rparr>)"
    using index_step1 by (rule cycles_1)
  have p: "unat (pc ((loaded prog_index)\<lparr>inst := 0xA123, index := 0x123, pc := 0x202\<rparr>)) + 1 < memSize"
    by (simp add: memSize_def)
  from timers_unchanged[OF n c] index_step2 n c p show ?thesis
    by simp
qed

end
